theory Spec2Isabelle
  imports Complex_Main "HOL-Library.AList"
begin

section \<open>Python values, exceptions and dictionaries\<close>

text \<open>
  The program is one Python module, \<^verbatim>\<open>safe-search-vision-api.py\<close>. Exceptions are
  values of the type \<open>error\<close>; a function that may raise returns \<open>error + 'a\<close>
  with \<open>Inl\<close> for the exception. A finite Python float is the real number it
  denotes.
\<close>

datatype error =
    FileNotFoundError string
  | ValueError string
  | ZeroDivisionError
  | IndexError
  | KeyError string
  | TypeError
  | AttributeError string
  | OSError string
  | OverflowError string
  | ServiceError string

text \<open>\<^verbatim>\<open>str(e)\<close>: the description an exception carries.\<close>

fun str :: "error \<Rightarrow> string" where
  "str (FileNotFoundError m) = m"
| "str (ValueError m) = m"
| "str ZeroDivisionError = ''integer modulo by zero''"
| "str IndexError = ''list index out of range''"
| "str (KeyError k) = [CHR 0x27] @ k @ [CHR 0x27]"
| "str TypeError = ''unhashable type''"
| "str (AttributeError a) = a"
| "str (OSError m) = m"
| "str (OverflowError m) = m"
| "str (ServiceError m) = m"

datatype pyval =
    PyStr string
  | PyInt int
  | PyFloat real
  | PyDict "(string \<times> pyval) list"
  | PyList "pyval list"

text \<open>
  A dictionary keeps its keys in insertion order: an association list without
  duplicate keys. \<open>d[k]\<close> raises KeyError on a missing key; \<open>d[k] = v\<close> replaces
  the value of a key that is present and appends a new key at the end.
\<close>

type_synonym dict = "(string \<times> pyval) list"

definition getitem :: "dict \<Rightarrow> string \<Rightarrow> error + pyval" where
  "getitem d k = (case map_of d k of None \<Rightarrow> Inl (KeyError k) | Some v \<Rightarrow> Inr v)"

definition setitem :: "dict \<Rightarrow> string \<Rightarrow> pyval \<Rightarrow> dict" where
  "setitem d k v = AList.update k v d"

text \<open>
  \<open>xs[i]\<close> on a list: a negative index counts from the end, anything outside
  raises IndexError.
\<close>

definition list_getitem :: "'a list \<Rightarrow> int \<Rightarrow> error + 'a" where
  "list_getitem xs i =
     (if 0 \<le> i \<and> i < int (length xs) then Inr (xs ! nat i)
      else if i < 0 \<and> - int (length xs) \<le> i then Inr (xs ! nat (int (length xs) + i))
      else Inl IndexError)"

text \<open>
  The result of a float operation: a finite double, an infinity or a NaN.
  \<^verbatim>\<open>int(x)\<close> truncates a finite float towards zero and raises on the other two.
\<close>

datatype pyfloat = FloatVal real | FloatInf | FloatNaN

definition py_int :: "pyfloat \<Rightarrow> error + int" where
  "py_int x =
     (case x of
        FloatVal v \<Rightarrow> Inr (if 0 \<le> v then \<lfloor>v\<rfloor> else \<lceil>v\<rceil>)
      | FloatInf \<Rightarrow> Inl (OverflowError ''cannot convert float infinity to integer'')
      | FloatNaN \<Rightarrow> Inl (ValueError ''cannot convert float NaN to integer''))"

section \<open>The collaborators of the analyzer\<close>

text \<open>
  \<open>cv2.VideoCapture\<close>: whether the file opened, the frame rate it reports, and the
  finite sequence of frames that successive \<open>cap.read()\<close> calls deliver before
  \<open>ret\<close> is false.
\<close>

record 'f capture =
  isOpened :: bool
  CAP_PROP_FPS :: real
  stream :: "'f list"

text \<open>
  The \<open>safe_search_annotation\<close> of a response, as the service sent it: the integer
  likelihood of each category, \<open>None\<close> for a category the response does not carry.
\<close>

record annotation =
  adult :: "int option"
  spoof :: "int option"
  medical :: "int option"
  violence :: "int option"
  racy :: "int option"

text \<open>
  Everything outside the module: the file system, the decoder, the classification
  client (\<open>imencode\<close>, the request and the response together), the clock, and
  the multiplication of two finite floats, whose rounding the model leaves open.
  \<open>imwrite\<close> takes the output directory and the frame index, which determine
  the path \<^verbatim>\<open>os.path.join(output_dir, f"flagged_frame_{idx:04d}.jpg")\<close>, and
  the frame; like \<open>makedirs\<close> it returns the exception it raises, if any.
\<close>

record 'f env =
  path_exists :: "string \<Rightarrow> bool"
  VideoCapture :: "string \<Rightarrow> 'f capture"
  makedirs :: "string \<Rightarrow> error option"
  imwrite :: "string \<Rightarrow> nat \<Rightarrow> 'f \<Rightarrow> error option"
  safe_search_detection :: "'f \<Rightarrow> error + annotation"
  now_isoformat :: string
  float_mul :: "real \<Rightarrow> real \<Rightarrow> pyfloat"

section \<open>extract_frames\<close>

text \<open>
  The \<open>while True\<close> loop of \<open>extract_frames\<close>: one iteration per frame read,
  \<open>frame_count % frame_interval\<close> evaluated in each, ZeroDivisionError when the
  interval is 0.
\<close>

fun read_loop :: "int \<Rightarrow> 'f list \<Rightarrow> int \<Rightarrow> 'f list \<Rightarrow> error + 'f list" where
  "read_loop frame_interval [] frame_count frames = Inr frames"
| "read_loop frame_interval (frame # rest) frame_count frames =
     (if frame_interval = 0 then Inl ZeroDivisionError
      else read_loop frame_interval rest (frame_count + 1)
             (if frame_count mod frame_interval = 0 then frames @ [frame] else frames))"

text \<open>
  \<open>frame_interval\<close> is \<open>int\<close> of the float product of the frame rate and the
  interval. The two factors are finite floats here; a factor that is infinite or NaN
  gives a product that is, and \<open>int\<close> raises on it in the same way.
\<close>

definition extract_frames :: "'f env \<Rightarrow> string \<Rightarrow> real \<Rightarrow> error + 'f list" where
  "extract_frames e video_path interval_seconds =
     (let cap = VideoCapture e video_path in
      if \<not> isOpened cap then Inl (ValueError (''Error opening video file: '' @ video_path))
      else
        let fps = CAP_PROP_FPS cap in
        (case py_int (float_mul e fps interval_seconds) of
           Inl ex \<Rightarrow> Inl ex
         | Inr frame_interval \<Rightarrow> read_loop frame_interval (stream cap) 0 []))"

section \<open>analyze_frame_safety\<close>

definition likelihood_names :: "string list" where
  "likelihood_names =
     [''UNKNOWN'', ''VERY_UNLIKELY'', ''UNLIKELY'', ''POSSIBLE'', ''LIKELY'', ''VERY_LIKELY'']"

text \<open>
  Modelled from the client library: reading an attribute of the annotation, such as
  \<^verbatim>\<open>safe_search.adult\<close>, never fails; a category the response does not carry
  reads as 0, the default of the field.
\<close>

definition attribute :: "int option \<Rightarrow> int" where
  "attribute x = (case x of None \<Rightarrow> 0 | Some i \<Rightarrow> i)"

text \<open>\<^verbatim>\<open>likelihood_names[safe_search.<attr>]\<close> for one attribute.\<close>

definition likelihood_of :: "int option \<Rightarrow> error + pyval" where
  "likelihood_of x =
     (case list_getitem likelihood_names (attribute x) of
        Inl ex \<Rightarrow> Inl ex
      | Inr name \<Rightarrow> Inr (PyStr name))"

text \<open>
  The entries of the returned dictionary are evaluated in the order written, so the
  first attribute that fails decides the exception.
\<close>

definition analyze_frame_safety :: "'f env \<Rightarrow> 'f \<Rightarrow> error + dict" where
  "analyze_frame_safety e frame =
     (case safe_search_detection e frame of
        Inl ex \<Rightarrow> Inl ex
      | Inr safe_search \<Rightarrow>
     (case likelihood_of (adult safe_search) of
        Inl ex \<Rightarrow> Inl ex
      | Inr a \<Rightarrow>
     (case likelihood_of (spoof safe_search) of
        Inl ex \<Rightarrow> Inl ex
      | Inr s \<Rightarrow>
     (case likelihood_of (medical safe_search) of
        Inl ex \<Rightarrow> Inl ex
      | Inr m \<Rightarrow>
     (case likelihood_of (violence safe_search) of
        Inl ex \<Rightarrow> Inl ex
      | Inr v \<Rightarrow>
     (case likelihood_of (racy safe_search) of
        Inl ex \<Rightarrow> Inl ex
      | Inr r \<Rightarrow>
          Inr [(''adult'', a), (''spoof'', s), (''medical'', m),
               (''violence'', v), (''racy'', r)]))))))"

section \<open>analyze_video\<close>

text \<open>
  The dictionary \<open>results\<close> is only read and written under literal keys, which are
  the fields of a record. Its \<open>summary\<close> is written under computed keys
  (\<^verbatim>\<open>f'max_{key}'\<close>) and the per-frame dictionaries grow after they are built, so
  both are dictionaries.
\<close>

record results =
  video_path :: string
  total_frames_analyzed :: int
  interval_seconds :: real
  timestamp :: string
  frame_results :: "pyval list"
  summary :: dict

definition likelihood_levels :: "(string \<times> int) list" where
  "likelihood_levels =
     [(''UNKNOWN'', 0), (''VERY_UNLIKELY'', 1), (''UNLIKELY'', 2),
      (''POSSIBLE'', 3), (''LIKELY'', 4), (''VERY_LIKELY'', 5)]"

text \<open>
  \<^verbatim>\<open>likelihood_levels[v]\<close>. A value that is not a string is no key of the table;
  the model reports it as TypeError without telling numbers from containers.
\<close>

fun level :: "pyval \<Rightarrow> error + int" where
  "level (PyStr name) =
     (case map_of likelihood_levels name of
        None \<Rightarrow> Inl (KeyError name)
      | Some l \<Rightarrow> Inr l)"
| "level _ = Inl TypeError"

text \<open>\<^verbatim>\<open>likelihood_levels[d[key]]\<close>, the left operand first.\<close>

definition level_at :: "dict \<Rightarrow> string \<Rightarrow> error + int" where
  "level_at d key = (case getitem d key of Inl ex \<Rightarrow> Inl ex | Inr v \<Rightarrow> level v)"

text \<open>One iteration of the loop over the five keys that updates the maxima.\<close>

definition update_max :: "dict \<Rightarrow> dict \<Rightarrow> string \<Rightarrow> error + dict" where
  "update_max frame_result summ key =
     (case level_at frame_result key of
        Inl ex \<Rightarrow> Inl ex
      | Inr l \<Rightarrow>
     (case level_at summ (''max_'' @ key) of
        Inl ex \<Rightarrow> Inl ex
      | Inr lmax \<Rightarrow>
          if l > lmax then
            (case getitem frame_result key of
               Inl ex \<Rightarrow> Inl ex
             | Inr v \<Rightarrow> Inr (setitem summ (''max_'' @ key) v))
          else Inr summ))"

text \<open>
  The loop itself: an exception leaves the loop with the summary as the earlier
  iterations have written it.
\<close>

fun update_maxima :: "dict \<Rightarrow> string list \<Rightarrow> dict \<Rightarrow> error option \<times> dict" where
  "update_maxima frame_result [] summ = (None, summ)"
| "update_maxima frame_result (key # keys) summ =
     (case update_max frame_result summ key of
        Inl ex \<Rightarrow> (Some ex, summ)
      | Inr summ' \<Rightarrow> update_maxima frame_result keys summ')"

text \<open>\<open>is_flagged\<close>: the list given to \<open>any\<close> is built in full before \<open>any\<close> runs.\<close>

definition is_flagged :: "dict \<Rightarrow> error + bool" where
  "is_flagged frame_result =
     (case level_at frame_result ''adult'' of
        Inl ex \<Rightarrow> Inl ex
      | Inr a \<Rightarrow>
     (case level_at frame_result ''violence'' of
        Inl ex \<Rightarrow> Inl ex
      | Inr v \<Rightarrow>
     (case level_at frame_result ''racy'' of
        Inl ex \<Rightarrow> Inl ex
      | Inr r \<Rightarrow> Inr (a \<ge> 3 \<or> v \<ge> 3 \<or> r \<ge> 3))))"

text \<open>\<^verbatim>\<open>results['summary']['flagged_frames'].append(x)\<close>.\<close>

definition append_flagged :: "dict \<Rightarrow> pyval \<Rightarrow> error + dict" where
  "append_flagged summ x =
     (case getitem summ ''flagged_frames'' of
        Inl ex \<Rightarrow> Inl ex
      | Inr (PyList xs) \<Rightarrow> Inr (setitem summ ''flagged_frames'' (PyList (xs @ [x])))
      | Inr _ \<Rightarrow> Inl (AttributeError ''append''))"

text \<open>\<^verbatim>\<open>save_flagged_frames and output_dir\<close>: None and the empty string are false.\<close>

definition saving :: "bool \<Rightarrow> string option \<Rightarrow> bool" where
  "saving save_flagged_frames out_dir =
     (save_flagged_frames \<and> (case out_dir of None \<Rightarrow> False | Some d \<Rightarrow> d \<noteq> []))"

text \<open>
  The body of the \<open>try\<close>: the exception that leaves it, if any, and \<open>results\<close> as
  it stands at that point. What was appended or updated before the exception stays.
\<close>

definition try_block ::
  "'f env \<Rightarrow> real \<Rightarrow> bool \<Rightarrow> string option \<Rightarrow> nat \<Rightarrow> 'f \<Rightarrow> results \<Rightarrow> error option \<times> results" where
  "try_block e interval save_flagged_frames out_dir idx frame res =
     (case analyze_frame_safety e frame of
        Inl ex \<Rightarrow> (Some ex, res)
      | Inr scores \<Rightarrow>
          let frame_result =
                setitem (setitem scores ''frame_index'' (PyInt (int idx)))
                  ''timestamp_seconds'' (PyFloat (real idx * interval));
              res1 = res\<lparr>frame_results := frame_results res @ [PyDict frame_result]\<rparr>;
              (raised, summ) = update_maxima frame_result
                 [''adult'', ''violence'', ''medical'', ''racy'', ''spoof''] (summary res1);
              res2 = res1\<lparr>summary := summ\<rparr>
          in
            (case raised of
               Some ex \<Rightarrow> (Some ex, res2)
             | None \<Rightarrow>
            (case is_flagged frame_result of
               Inl ex \<Rightarrow> (Some ex, res2)
             | Inr flagged \<Rightarrow>
                 if \<not> flagged then (None, res2)
                 else
                   (case append_flagged (summary res2)
                           (PyDict [(''frame_index'', PyInt (int idx)),
                                    (''timestamp_seconds'', PyFloat (real idx * interval)),
                                    (''reasons'', PyDict frame_result)]) of
                      Inl ex \<Rightarrow> (Some ex, res2)
                    | Inr summ' \<Rightarrow>
                        let res3 = res2\<lparr>summary := summ'\<rparr> in
                        if saving save_flagged_frames out_dir
                        then (imwrite e (the out_dir) idx frame, res3)
                        else (None, res3)))))"

text \<open>One iteration of \<open>for idx, frame in enumerate(frames)\<close>, with its \<open>except\<close>.\<close>

definition loop_body ::
  "'f env \<Rightarrow> real \<Rightarrow> bool \<Rightarrow> string option \<Rightarrow> nat \<Rightarrow> 'f \<Rightarrow> results \<Rightarrow> results" where
  "loop_body e interval save_flagged_frames out_dir idx frame res =
     (case try_block e interval save_flagged_frames out_dir idx frame res of
        (None, res') \<Rightarrow> res'
      | (Some ex, res') \<Rightarrow>
          res'\<lparr>frame_results := frame_results res' @
                  [PyDict [(''frame_index'', PyInt (int idx)), (''error'', PyStr (str ex))]]\<rparr>)"

fun analyze_loop ::
  "'f env \<Rightarrow> real \<Rightarrow> bool \<Rightarrow> string option \<Rightarrow> nat \<Rightarrow> 'f list \<Rightarrow> results \<Rightarrow> results" where
  "analyze_loop e interval save_flagged_frames out_dir idx [] res = res"
| "analyze_loop e interval save_flagged_frames out_dir idx (frame # rest) res =
     analyze_loop e interval save_flagged_frames out_dir (Suc idx) rest
       (loop_body e interval save_flagged_frames out_dir idx frame res)"

definition initial_results :: "'f env \<Rightarrow> string \<Rightarrow> real \<Rightarrow> 'f list \<Rightarrow> results" where
  "initial_results e path interval frames =
     \<lparr> video_path = path,
       total_frames_analyzed = int (length frames),
       interval_seconds = interval,
       timestamp = now_isoformat e,
       frame_results = [],
       summary =
         [(''max_adult'', PyStr ''VERY_UNLIKELY''),
          (''max_violence'', PyStr ''VERY_UNLIKELY''),
          (''max_medical'', PyStr ''VERY_UNLIKELY''),
          (''max_racy'', PyStr ''VERY_UNLIKELY''),
          (''max_spoof'', PyStr ''VERY_UNLIKELY''),
          (''flagged_frames'', PyList [])] \<rparr>"

definition analyze_video ::
  "'f env \<Rightarrow> string \<Rightarrow> real \<Rightarrow> bool \<Rightarrow> string option \<Rightarrow> error + results" where
  "analyze_video e path interval save_flagged_frames out_dir =
     (if \<not> path_exists e path then Inl (FileNotFoundError (''Video file not found: '' @ path))
      else
        (case extract_frames e path interval of
           Inl ex \<Rightarrow> Inl ex
         | Inr frames \<Rightarrow>
        (case (if saving save_flagged_frames out_dir then makedirs e (the out_dir) else None) of
           Some ex \<Rightarrow> Inl ex
         | None \<Rightarrow>
             Inr (analyze_loop e interval save_flagged_frames out_dir 0 frames
                    (initial_results e path interval frames)))))"

section \<open>main\<close>

record args =
  arg_video_path :: string
  credentials :: "string option"
  arg_interval :: real
  save_flagged :: bool
  output_dir :: string
  json_output :: "string option"
  report_output :: "string option"

text \<open>
  What \<open>main\<close> needs beyond the analyzer: creating the client, writing a file (the
  JSON results, the report) and printing the report, which is a function of
  \<open>results\<close>. Each returns the exception it raises, if any.
\<close>

record 'f system = "'f env" +
  ImageAnnotatorClient :: "string option \<Rightarrow> error option"
  write_file :: "string \<Rightarrow> error option"
  print_report :: "results \<Rightarrow> error option"

definition truthy :: "string option \<Rightarrow> bool" where
  "truthy s = (case s of None \<Rightarrow> False | Some t \<Rightarrow> t \<noteq> [])"

text \<open>
  The exit status of \<open>main\<close>. \<open>exit\<close> raises SystemExit, which \<open>except Exception\<close>
  does not catch, so the status chosen inside the \<open>try\<close> is the final one.
  \<open>generate_report\<close> only formats \<open>results\<close>; what can fail in it is the write of
  the report file. The \<open>print\<close> of the report comes next, inside the \<open>try\<close>.
\<close>

definition main :: "'f system \<Rightarrow> args \<Rightarrow> int" where
  "main sys a =
     (case ImageAnnotatorClient sys (credentials a) of
        Some ex \<Rightarrow> 1
      | None \<Rightarrow>
     (case analyze_video (env.truncate sys) (arg_video_path a) (arg_interval a)
             (save_flagged a) (Some (output_dir a)) of
        Inl ex \<Rightarrow> 1
      | Inr res \<Rightarrow>
     (case (if truthy (json_output a) then write_file sys (the (json_output a)) else None) of
        Some ex \<Rightarrow> 1
      | None \<Rightarrow>
     (case (if truthy (report_output a) then write_file sys (the (report_output a)) else None) of
        Some ex \<Rightarrow> 1
      | None \<Rightarrow>
     (case print_report sys res of
        Some ex \<Rightarrow> 1
      | None \<Rightarrow>
     (case getitem (summary res) ''flagged_frames'' of
        Inl ex \<Rightarrow> 1
      | Inr (PyList flagged) \<Rightarrow> if flagged \<noteq> [] then 1 else 0
      | Inr (PyDict d) \<Rightarrow> if d \<noteq> [] then 1 else 0
      | Inr (PyStr s) \<Rightarrow> if s \<noteq> [] then 1 else 0
      | Inr (PyInt i) \<Rightarrow> if i \<noteq> 0 then 1 else 0
      | Inr (PyFloat x) \<Rightarrow> if x \<noteq> 0 then 1 else 0))))))"

section \<open>Reference definitions\<close>

text \<open>
  The frame count the specification gives for the sampler, in its own words:
  \<open>ceil(total_source_frames / max(1, round(f * i)))\<close>.
\<close>

definition claimed_frame_count :: "nat \<Rightarrow> real \<Rightarrow> real \<Rightarrow> int" where
  "claimed_frame_count total_source_frames f i =
     \<lceil>real total_source_frames / real_of_int (max 1 (round (f * i)))\<rceil>"

text \<open>
  A capture that opened, with the given frame rate and frames, behind any path. The
  examples multiply floats whose product is exact or truncates as the exact one.
\<close>

definition video_env :: "real \<Rightarrow> 'f list \<Rightarrow> 'f env" where
  "video_env rate fs =
     \<lparr> path_exists = (\<lambda>_. True),
       VideoCapture = (\<lambda>_. \<lparr> isOpened = True, CAP_PROP_FPS = rate, stream = fs \<rparr>),
       makedirs = (\<lambda>_. None),
       imwrite = (\<lambda>_ _ _. None),
       safe_search_detection = (\<lambda>_. Inl (ServiceError ''unavailable'')),
       now_isoformat = ''2024-01-01T00:00:00'',
       float_mul = (\<lambda>x y. FloatVal (x * y)) \<rparr>"

text \<open>
  The dictionary \<open>analyze_frame_safety\<close> returns, given its five names, and the
  \<open>summary\<close> dictionary, given the five maxima and the flagged list.
\<close>

definition score_dict :: "string \<Rightarrow> string \<Rightarrow> string \<Rightarrow> string \<Rightarrow> string \<Rightarrow> dict" where
  "score_dict a s m v r =
     [(''adult'', PyStr a), (''spoof'', PyStr s), (''medical'', PyStr m),
      (''violence'', PyStr v), (''racy'', PyStr r)]"

definition mk_summary ::
  "string \<Rightarrow> string \<Rightarrow> string \<Rightarrow> string \<Rightarrow> string \<Rightarrow> pyval list \<Rightarrow> dict" where
  "mk_summary ma mv mm mr ms fl =
     [(''max_adult'', PyStr ma), (''max_violence'', PyStr mv), (''max_medical'', PyStr mm),
      (''max_racy'', PyStr mr), (''max_spoof'', PyStr ms), (''flagged_frames'', PyList fl)]"

text \<open>
  The level of a likelihood name in \<open>likelihood_levels\<close>, and the name the loop
  over the five keys keeps: the new one only when its level is strictly higher.
\<close>

definition rank :: "string \<Rightarrow> int" where
  "rank name = the (map_of likelihood_levels name)"

definition mx :: "string \<Rightarrow> string \<Rightarrow> string" where
  "mx new old = (if rank new > rank old then new else old)"

text \<open>
  \<open>frame_result\<close> once \<open>frame_index\<close> and \<open>timestamp_seconds\<close> are set, the record
  appended to \<open>flagged_frames\<close>, and the entry the \<open>except\<close> clause appends.
\<close>

definition frame_result_of :: "real \<Rightarrow> nat \<Rightarrow> dict \<Rightarrow> dict" where
  "frame_result_of interval idx scores =
     setitem (setitem scores ''frame_index'' (PyInt (int idx)))
       ''timestamp_seconds'' (PyFloat (real idx * interval))"

definition flag_record :: "real \<Rightarrow> nat \<Rightarrow> dict \<Rightarrow> pyval" where
  "flag_record interval idx scores =
     PyDict [(''frame_index'', PyInt (int idx)),
             (''timestamp_seconds'', PyFloat (real idx * interval)),
             (''reasons'', PyDict (frame_result_of interval idx scores))]"

definition error_marker :: "nat \<Rightarrow> error \<Rightarrow> pyval" where
  "error_marker idx ex = PyDict [(''frame_index'', PyInt (int idx)), (''error'', PyStr (str ex))]"

text \<open>
  The flag condition on the names of \<open>adult\<close>, \<open>violence\<close> and \<open>racy\<close>.
\<close>

definition flagged3 :: "string \<Rightarrow> string \<Rightarrow> string \<Rightarrow> bool" where
  "flagged3 a v r = (rank a \<ge> 3 \<or> rank v \<ge> 3 \<or> rank r \<ge> 3)"

text \<open>
  What a frame adds to \<open>frame_results\<close> after its own entry: the marker of the
  exception \<open>imwrite\<close> raised, when the frame was flagged and saved.
\<close>

definition write_errors :: "'f env \<Rightarrow> bool \<Rightarrow> string option \<Rightarrow> nat \<Rightarrow> 'f \<Rightarrow> bool \<Rightarrow> pyval list" where
  "write_errors e sv od idx frame flagged =
     (if flagged \<and> saving sv od
      then (case imwrite e (the od) idx frame of None \<Rightarrow> [] | Some ex \<Rightarrow> [error_marker idx ex])
      else [])"

text \<open>
  The keys of the loop that updates the maxima, and the summary as a function of
  the maxima per key.
\<close>

definition categories :: "string list" where
  "categories = [''adult'', ''violence'', ''medical'', ''racy'', ''spoof'']"

definition summary_of :: "(string \<Rightarrow> string) \<Rightarrow> pyval list \<Rightarrow> dict" where
  "summary_of maxes fl =
     mk_summary (maxes ''adult'') (maxes ''violence'') (maxes ''medical'') (maxes ''racy'')
       (maxes ''spoof'') fl"

text \<open>
  What one frame contributes: the next maximum of a key, its flag records and its
  entries of \<open>frame_results\<close>.
\<close>

definition name_at :: "dict \<Rightarrow> string \<Rightarrow> string" where
  "name_at scores key = (case map_of scores key of Some (PyStr name) \<Rightarrow> name | _ \<Rightarrow> [])"

definition next_max :: "'f env \<Rightarrow> 'f \<Rightarrow> string \<Rightarrow> string \<Rightarrow> string" where
  "next_max e frame key old =
     (case analyze_frame_safety e frame of
        Inl ex \<Rightarrow> old
      | Inr scores \<Rightarrow> mx (name_at scores key) old)"

definition flagged_scores :: "dict \<Rightarrow> bool" where
  "flagged_scores scores =
     flagged3 (name_at scores ''adult'') (name_at scores ''violence'') (name_at scores ''racy'')"

definition flags_of :: "'f env \<Rightarrow> real \<Rightarrow> nat \<Rightarrow> 'f \<Rightarrow> pyval list" where
  "flags_of e interval idx frame =
     (case analyze_frame_safety e frame of
        Inl ex \<Rightarrow> []
      | Inr scores \<Rightarrow>
          if flagged_scores scores then [flag_record interval idx scores] else [])"

definition entries_of ::
  "'f env \<Rightarrow> real \<Rightarrow> bool \<Rightarrow> string option \<Rightarrow> nat \<Rightarrow> 'f \<Rightarrow> pyval list" where
  "entries_of e interval sv od idx frame =
     (case analyze_frame_safety e frame of
        Inl ex \<Rightarrow> [error_marker idx ex]
      | Inr scores \<Rightarrow>
          PyDict (frame_result_of interval idx scores)
            # write_errors e sv od idx frame (flagged_scores scores))"

text \<open>
  Every maximum is one of the six likelihood names.
\<close>

definition names_ok :: "(string \<Rightarrow> string) \<Rightarrow> bool" where
  "names_ok maxes = (\<forall>key \<in> set categories. maxes key \<in> set likelihood_names)"

text \<open>
  \<open>results\<close> after the first \<open>n\<close> iterations of the loop over the sampled frames.
\<close>

definition state_after ::
  "'f env \<Rightarrow> string \<Rightarrow> real \<Rightarrow> bool \<Rightarrow> string option \<Rightarrow> 'f list \<Rightarrow> nat \<Rightarrow> results" where
  "state_after e path interval sv od frames n =
     analyze_loop e interval sv od 0 (take n frames) (initial_results e path interval frames)"

text \<open>
  The levels of a category in the successfully scored frames among the first \<open>n\<close>.
\<close>

definition scored_levels :: "'f env \<Rightarrow> 'f list \<Rightarrow> string \<Rightarrow> nat \<Rightarrow> int set" where
  "scored_levels e frames key n =
     {l. \<exists>j<n. \<exists>scores. analyze_frame_safety e (frames ! j) = Inr scores
                          \<and> level_at scores key = Inr l}"

text \<open>
  Example inputs. Three frames at one frame per second: frame 1 is scored
  \<open>adult = POSSIBLE\<close>, the classification of frame 2 fails, frame 0 is harmless.
\<close>

definition demo_response :: "nat \<Rightarrow> error + annotation" where
  "demo_response frame =
     (if frame = 1 then
        Inr \<lparr>adult = Some 3, spoof = Some 1, medical = Some 1, violence = Some 1, racy = Some 1\<rparr>
      else if frame = 2 then Inl (ServiceError ''quota exceeded'')
      else
        Inr \<lparr>adult = Some 1, spoof = Some 1, medical = Some 1, violence = Some 1, racy = Some 1\<rparr>)"

definition demo_env :: "nat env" where
  "demo_env = (video_env 1 [0, 1, 2])\<lparr>safe_search_detection := demo_response\<rparr>"

text \<open>
  One frame, scored UNKNOWN in every category.
\<close>

definition unknown_env :: "nat env" where
  "unknown_env = (video_env 1 [0])\<lparr>safe_search_detection :=
     (\<lambda>frame. Inr \<lparr>adult = Some 0, spoof = Some 0, medical = Some 0,
                     violence = Some 0, racy = Some 0\<rparr>)\<rparr>"

text \<open>
  One frame whose response carries no \<open>racy\<close> category.
\<close>

definition partial_env :: "nat env" where
  "partial_env = (video_env 1 [0])\<lparr>safe_search_detection :=
     (\<lambda>frame. Inr \<lparr>adult = Some 1, spoof = Some 1, medical = Some 1,
                     violence = Some 1, racy = None\<rparr>)\<rparr>"

text \<open>
  A path that does not exist, and a file that does not open.
\<close>

definition missing_env :: "nat env" where
  "missing_env = (video_env 1 [0])\<lparr>path_exists := (\<lambda>path. False)\<rparr>"

definition unopened_env :: "nat env" where
  "unopened_env = (video_env 1 [0])\<lparr>VideoCapture :=
     (\<lambda>path. \<lparr>isOpened = False, CAP_PROP_FPS = 0, stream = []\<rparr>)\<rparr>"

text \<open>
  The three-frame example as a command-line run that writes a report.
\<close>

definition demo_system :: "nat system" where
  "demo_system = env.extend demo_env
     (system.fields (\<lambda>credentials. None) (\<lambda>path. None) (\<lambda>res. None))"

definition demo_args :: args where
  "demo_args =
     \<lparr> arg_video_path = ''v.mp4'', credentials = None, arg_interval = 1,
       save_flagged = False, output_dir = ''flagged_frames'',
       json_output = None, report_output = Some ''report.txt'' \<rparr>"

section \<open>The sampler\<close>

lemma read_loop_filter:
  "s \<noteq> 0 \<Longrightarrow> read_loop s src c acc =
     Inr (acc @ map (\<lambda>j. src ! j) (filter (\<lambda>j. (c + int j) mod s = 0) [0..<length src]))"
proof (induction src arbitrary: c acc)
  case Nil
  then show ?case by simp
next
  case (Cons f rest)
  have upt: "[0..<length (f # rest)] = 0 # map Suc [0..<length rest]"
    by (simp add: upt_conv_Cons map_Suc_upt del: upt_Suc)
  have shift: "(\<lambda>j. (c + int j) mod s = 0) \<circ> Suc = (\<lambda>j. (c + 1 + int j) mod s = 0)"
    by (auto simp: fun_eq_iff algebra_simps)
  show ?case
    using Cons.prems
    by (simp only: upt) (simp add: Cons.IH filter_map o_def add.assoc)
qed

lemma div_ceil_step:
  fixes n s :: nat
  assumes "0 < s"
  shows "(Suc n + s - 1) div s = (if n mod s = 0 then Suc ((n + s - 1) div s) else (n + s - 1) div s)"
proof -
  define q r where "q = n div s" and "r = n mod s"
  have n: "n = q * s + r" and r: "r < s"
    using assms by (simp_all add: q_def r_def)
  show ?thesis
  proof (cases "r = 0")
    case True
    have "n + s - 1 = q * s + (s - 1)" "Suc n + s - 1 = Suc q * s + 0"
      using n True assms by simp_all
    then have "(n + s - 1) div s = q" "(Suc n + s - 1) div s = Suc q"
      using assms by (simp_all only: div_mult_self3) simp_all
    then show ?thesis using True by (simp add: r_def)
  next
    case False
    have "n + s - 1 = Suc q * s + (r - 1)" "Suc n + s - 1 = Suc q * s + r"
      using n False by simp_all
    then have "(n + s - 1) div s = Suc q" "(Suc n + s - 1) div s = Suc q"
      using assms r by (simp_all only: div_mult_self3) simp_all
    then show ?thesis using False by (simp add: r_def)
  qed
qed

lemma multiples_upt:
  "0 < s \<Longrightarrow> filter (\<lambda>j. j mod s = 0) [0..<n] = map (\<lambda>k. k * s) [0..<(n + s - 1) div s]"
proof (induction n)
  case 0
  then show ?case by simp
next
  case (Suc n)
  show ?case
  proof (cases "n mod s = 0")
    case True
    have q: "n = (n div s) * s" using True by auto
    have "n + s - 1 = (n div s) * s + (s - 1)"
      using q Suc.prems by simp
    then have "(n + s - 1) div s = n div s"
      using Suc.prems by (simp only: div_mult_self3) simp
    then show ?thesis using Suc True q div_ceil_step [OF Suc.prems, of n] by simp
  next
    case False
    then show ?thesis using Suc div_ceil_step [OF Suc.prems, of n] by simp
  qed
qed

lemma read_loop_stride:
  assumes "0 < s"
  shows "read_loop (int s) src 0 [] =
           Inr (map (\<lambda>k. src ! (k * s)) [0..<(length src + s - 1) div s])"
proof -
  have "(\<lambda>j. (0 + int j) mod int s = 0) = (\<lambda>j. j mod s = 0)"
    by (auto simp: fun_eq_iff simp flip: zmod_int)
  then show ?thesis
    using assms read_loop_filter [of "int s" src 0 "[]"]
    by (simp add: multiples_upt o_def)
qed

lemma ceiling_nat_div:
  fixes n s :: nat
  assumes "0 < s"
  shows "\<lceil>real n / real s\<rceil> = int ((n + s - 1) div s)"
proof -
  define m where "m = (n + s - 1) div s"
  have lo: "m * s \<le> n + s - 1"
    by (simp add: m_def)
  have hi: "n + s - 1 < m * s + s"
    using assms dividend_less_div_times [of s "n + s - 1"] by (simp add: m_def add.commute)
  have "m * s + 1 \<le> n + s" "n \<le> m * s"
    using lo hi assms by linarith+
  then have "real m * real s + 1 \<le> real n + real s" "real n \<le> real m * real s"
    by (metis of_nat_add of_nat_mult of_nat_le_iff of_nat_1)+
  then have "(real m - 1) * real s < real n" "real n \<le> real m * real s"
    by (simp_all add: algebra_simps)
  then have "real_of_int (int m) - 1 < real n / real s" "real n / real s \<le> real_of_int (int m)"
    using assms by (simp_all add: pos_less_divide_eq pos_divide_le_eq)
  then show ?thesis
    unfolding m_def [symmetric] by (rule ceiling_unique)
qed

lemma stride_index_in_range:
  fixes n s k :: nat
  assumes "0 < s" "k < (n + s - 1) div s"
  shows "k * s < n"
proof -
  have "Suc k * s \<le> ((n + s - 1) div s) * s"
    using assms(2) by (intro mult_le_mono1) simp
  also have "\<dots> \<le> n + s - 1"
    by simp
  finally show ?thesis
    using assms(1) by simp
qed

text \<open>
  C3 (amended). The stride is \<open>int(fps * interval_seconds)\<close>: the float product,
  truncated and not rounded. Whenever that is a number \<open>stride\<close> of at least 1, a
  video that opens yields exactly \<open>ceil(total_source_frames / stride)\<close> frames, and
  frame \<open>k\<close> of the output is source frame \<open>k * stride\<close>.
\<close>

theorem extract_frames_stride:
  assumes "isOpened (VideoCapture e path)"
    and "py_int (float_mul e (CAP_PROP_FPS (VideoCapture e path)) interval) = Inr stride"
    and "1 \<le> stride"
  shows "\<exists>out. extract_frames e path interval = Inr out
     \<and> int (length out) =
         \<lceil>real (length (stream (VideoCapture e path))) / real_of_int stride\<rceil>
     \<and> (\<forall>k<length out.
           k * nat stride < length (stream (VideoCapture e path))
         \<and> out ! k = stream (VideoCapture e path) ! (k * nat stride))"
proof -
  define s where "s = nat stride"
  define src where "src = stream (VideoCapture e path)"
  have s: "0 < s" "stride = int s"
    using assms(3) by (simp_all add: s_def)
  have run: "extract_frames e path interval =
      Inr (map (\<lambda>k. src ! (k * s)) [0..<(length src + s - 1) div s])"
    using assms(1,2) s read_loop_stride [OF s(1), of src]
    by (simp add: extract_frames_def Let_def src_def)
  have len: "int (length (map (\<lambda>k. src ! (k * s)) [0..<(length src + s - 1) div s]))
      = \<lceil>real (length src) / real_of_int (int s)\<rceil>"
    using ceiling_nat_div [OF s(1), of "length src"] by simp
  show ?thesis
    unfolding run s(2) src_def [symmetric]
    using len stride_index_in_range [OF s(1), of _ "length src"]
    by auto
qed

text \<open>
  At 7 frames per second and an interval of 0.25 s the product is 1.75: the
  specification's formula rounds it to 2 and promises one frame of two, the code
  truncates it to 1 and returns both.
\<close>

theorem extract_frames_round_counterexample:
  "extract_frames (video_env 7 [0::nat, 1]) ''v.mp4'' (1 / 4) = Inr [0, 1]
   \<and> int (length [0::nat, 1]) \<noteq> claimed_frame_count 2 7 (1 / 4)"
  by (simp add: extract_frames_def video_env_def py_int_def claimed_frame_count_def round_def)

theorem extract_frames_stride_witness:
  "isOpened (VideoCapture (video_env 2 [10::nat, 11, 12, 13, 14]) ''v.mp4'')
   \<and> py_int (float_mul (video_env 2 [10::nat, 11, 12, 13, 14]) 2 1) = Inr 2
   \<and> (\<exists>out. extract_frames (video_env 2 [10::nat, 11, 12, 13, 14]) ''v.mp4'' 1 = Inr out
        \<and> int (length out) = 3
        \<and> (\<forall>k<length out. k * 2 < length [10::nat, 11, 12, 13, 14]
               \<and> out ! k = [10::nat, 11, 12, 13, 14] ! (k * 2)))"
  using extract_frames_stride [of "video_env 2 [10::nat, 11, 12, 13, 14]" "''v.mp4''" 1 2]
  by (simp add: video_env_def py_int_def)

text \<open>
  C4. A frame rate of 0, or a product of frame rate and interval below 1, makes
  \<open>frame_interval\<close> 0, and the first frame read raises ZeroDivisionError: at
  30 frames per second and an interval of 0.01 s, and at a reported rate of 0.
\<close>

theorem extract_frames_zero_interval_raises:
  "extract_frames (video_env 30 [0::nat]) ''v.mp4'' (1 / 100) = Inl ZeroDivisionError
   \<and> extract_frames (video_env 0 [0::nat, 1]) ''v.mp4'' 1 = Inl ZeroDivisionError"
  by (simp add: extract_frames_def video_env_def py_int_def)

section \<open>The scorer\<close>

lemma list_getitem_mem: "list_getitem xs i = Inr x \<Longrightarrow> x \<in> set xs"
  by (auto simp: list_getitem_def split: if_splits)

lemma likelihood_of_name:
  "likelihood_of x = Inr y \<Longrightarrow> \<exists>name \<in> set likelihood_names. y = PyStr name"
  by (auto simp: likelihood_of_def split: sum.splits dest: list_getitem_mem)

lemma analyze_frame_safety_shape:
  assumes "analyze_frame_safety e frame = Inr scores"
  shows "\<exists>a s m v r. scores = score_dict a s m v r
           \<and> a \<in> set likelihood_names \<and> s \<in> set likelihood_names \<and> m \<in> set likelihood_names
           \<and> v \<in> set likelihood_names \<and> r \<in> set likelihood_names"
  using assms unfolding analyze_frame_safety_def score_dict_def
  by (auto split: sum.splits dest!: likelihood_of_name)

lemma level_name: "name \<in> set likelihood_names \<Longrightarrow> level (PyStr name) = Inr (rank name)"
  by (auto simp: likelihood_names_def likelihood_levels_def rank_def)

lemma rank_range: "name \<in> set likelihood_names \<Longrightarrow> 0 \<le> rank name \<and> rank name \<le> 5"
  by (auto simp: likelihood_names_def likelihood_levels_def rank_def)

lemma mx_name: "a \<in> set likelihood_names \<Longrightarrow> b \<in> set likelihood_names \<Longrightarrow> mx a b \<in> set likelihood_names"
  by (simp add: mx_def)

section \<open>One iteration of the loop\<close>

lemma frame_result_of_score_dict:
  "frame_result_of interval idx (score_dict a s m v r) =
     [(''adult'', PyStr a), (''spoof'', PyStr s), (''medical'', PyStr m),
      (''violence'', PyStr v), (''racy'', PyStr r),
      (''frame_index'', PyInt (int idx)),
      (''timestamp_seconds'', PyFloat (real idx * interval))]"
  by (simp add: frame_result_of_def score_dict_def setitem_def)

lemma level_at_frame_result:
  assumes "a \<in> set likelihood_names" "s \<in> set likelihood_names" "m \<in> set likelihood_names"
    "v \<in> set likelihood_names" "r \<in> set likelihood_names"
  shows "level_at (frame_result_of interval idx (score_dict a s m v r)) ''adult'' = Inr (rank a)"
    and "level_at (frame_result_of interval idx (score_dict a s m v r)) ''spoof'' = Inr (rank s)"
    and "level_at (frame_result_of interval idx (score_dict a s m v r)) ''medical'' = Inr (rank m)"
    and "level_at (frame_result_of interval idx (score_dict a s m v r)) ''violence'' = Inr (rank v)"
    and "level_at (frame_result_of interval idx (score_dict a s m v r)) ''racy'' = Inr (rank r)"
  using assms
  by (simp_all add: frame_result_of_score_dict level_at_def getitem_def level_name del: level.simps)

lemma level_at_summary:
  assumes "ma \<in> set likelihood_names" "mv \<in> set likelihood_names" "mm \<in> set likelihood_names"
    "mr \<in> set likelihood_names" "ms \<in> set likelihood_names"
  shows "level_at (mk_summary ma mv mm mr ms fl) ''max_adult'' = Inr (rank ma)"
    and "level_at (mk_summary ma mv mm mr ms fl) ''max_violence'' = Inr (rank mv)"
    and "level_at (mk_summary ma mv mm mr ms fl) ''max_medical'' = Inr (rank mm)"
    and "level_at (mk_summary ma mv mm mr ms fl) ''max_racy'' = Inr (rank mr)"
    and "level_at (mk_summary ma mv mm mr ms fl) ''max_spoof'' = Inr (rank ms)"
  using assms
  by (simp_all add: mk_summary_def level_at_def getitem_def level_name del: level.simps)

lemma update_max_keys:
  assumes "a \<in> set likelihood_names" "s \<in> set likelihood_names" "m \<in> set likelihood_names"
    "v \<in> set likelihood_names" "r \<in> set likelihood_names"
    "ma \<in> set likelihood_names" "mv \<in> set likelihood_names" "mm \<in> set likelihood_names"
    "mr \<in> set likelihood_names" "ms \<in> set likelihood_names"
  shows "update_max (frame_result_of interval idx (score_dict a s m v r)) (mk_summary ma mv mm mr ms fl) ''adult''
           = Inr (mk_summary (mx a ma) mv mm mr ms fl)"
    and "update_max (frame_result_of interval idx (score_dict a s m v r)) (mk_summary ma mv mm mr ms fl) ''violence''
           = Inr (mk_summary ma (mx v mv) mm mr ms fl)"
    and "update_max (frame_result_of interval idx (score_dict a s m v r)) (mk_summary ma mv mm mr ms fl) ''medical''
           = Inr (mk_summary ma mv (mx m mm) mr ms fl)"
    and "update_max (frame_result_of interval idx (score_dict a s m v r)) (mk_summary ma mv mm mr ms fl) ''racy''
           = Inr (mk_summary ma mv mm (mx r mr) ms fl)"
    and "update_max (frame_result_of interval idx (score_dict a s m v r)) (mk_summary ma mv mm mr ms fl) ''spoof''
           = Inr (mk_summary ma mv mm mr (mx s ms) fl)"
  using assms
  by (simp_all add: update_max_def level_at_frame_result level_at_summary mx_def)
     (simp_all add: frame_result_of_score_dict mk_summary_def getitem_def setitem_def)

lemma update_maxima_run:
  assumes "a \<in> set likelihood_names" "s \<in> set likelihood_names" "m \<in> set likelihood_names"
    "v \<in> set likelihood_names" "r \<in> set likelihood_names"
    "ma \<in> set likelihood_names" "mv \<in> set likelihood_names" "mm \<in> set likelihood_names"
    "mr \<in> set likelihood_names" "ms \<in> set likelihood_names"
  shows "update_maxima (frame_result_of interval idx (score_dict a s m v r))
           [''adult'', ''violence'', ''medical'', ''racy'', ''spoof'']
           (mk_summary ma mv mm mr ms fl)
         = (None, mk_summary (mx a ma) (mx v mv) (mx m mm) (mx r mr) (mx s ms) fl)"
  using assms by (simp add: update_max_keys mx_name)

lemma is_flagged_frame_result:
  assumes "a \<in> set likelihood_names" "s \<in> set likelihood_names" "m \<in> set likelihood_names"
    "v \<in> set likelihood_names" "r \<in> set likelihood_names"
  shows "is_flagged (frame_result_of interval idx (score_dict a s m v r)) = Inr (flagged3 a v r)"
  using assms by (simp add: is_flagged_def level_at_frame_result flagged3_def)

lemma append_flagged_summary:
  "append_flagged (mk_summary ma mv mm mr ms fl) x = Inr (mk_summary ma mv mm mr ms (fl @ [x]))"
  by (simp add: append_flagged_def mk_summary_def getitem_def setitem_def)

lemma try_block_scored:
  assumes sc: "analyze_frame_safety e frame = Inr (score_dict a s m v r)"
    and names: "a \<in> set likelihood_names" "s \<in> set likelihood_names" "m \<in> set likelihood_names"
      "v \<in> set likelihood_names" "r \<in> set likelihood_names"
    and summ: "summary res = mk_summary ma mv mm mr ms fl"
    and maxes: "ma \<in> set likelihood_names" "mv \<in> set likelihood_names" "mm \<in> set likelihood_names"
      "mr \<in> set likelihood_names" "ms \<in> set likelihood_names"
  shows "try_block e interval sv od idx frame res =
     (if flagged3 a v r \<and> saving sv od then imwrite e (the od) idx frame else None,
      res\<lparr>frame_results :=
             frame_results res @ [PyDict (frame_result_of interval idx (score_dict a s m v r))],
          summary :=
             mk_summary (mx a ma) (mx v mv) (mx m mm) (mx r mr) (mx s ms)
               (if flagged3 a v r
                then fl @ [flag_record interval idx (score_dict a s m v r)] else fl)\<rparr>)"
proof -
  have um: "update_maxima (frame_result_of interval idx (score_dict a s m v r))
           [''adult'', ''violence'', ''medical'', ''racy'', ''spoof'']
           (mk_summary ma mv mm mr ms fl)
         = (None, mk_summary (mx a ma) (mx v mv) (mx m mm) (mx r mr) (mx s ms) fl)"
    using names maxes by (rule update_maxima_run)
  have fl: "is_flagged (frame_result_of interval idx (score_dict a s m v r)) = Inr (flagged3 a v r)"
    using names by (rule is_flagged_frame_result)
  show ?thesis
    unfolding try_block_def sc frame_result_of_def [symmetric]
    by (simp add: Let_def summ um fl append_flagged_summary flag_record_def del: update_maxima.simps)
qed

lemma try_block_failed:
  "analyze_frame_safety e frame = Inl ex \<Longrightarrow>
     try_block e interval sv od idx frame res = (Some ex, res)"
  by (simp add: try_block_def)

lemma loop_body_failed:
  "analyze_frame_safety e frame = Inl ex \<Longrightarrow>
     loop_body e interval sv od idx frame res =
       res\<lparr>frame_results := frame_results res @ [error_marker idx ex]\<rparr>"
  by (simp add: loop_body_def try_block_failed error_marker_def)

lemma loop_body_scored:
  assumes sc: "analyze_frame_safety e frame = Inr (score_dict a s m v r)"
    and names: "a \<in> set likelihood_names" "s \<in> set likelihood_names" "m \<in> set likelihood_names"
      "v \<in> set likelihood_names" "r \<in> set likelihood_names"
    and summ: "summary res = mk_summary ma mv mm mr ms fl"
    and maxes: "ma \<in> set likelihood_names" "mv \<in> set likelihood_names" "mm \<in> set likelihood_names"
      "mr \<in> set likelihood_names" "ms \<in> set likelihood_names"
  shows "loop_body e interval sv od idx frame res =
      res\<lparr>frame_results :=
             frame_results res @ PyDict (frame_result_of interval idx (score_dict a s m v r))
               # write_errors e sv od idx frame (flagged3 a v r),
          summary :=
             mk_summary (mx a ma) (mx v mv) (mx m mm) (mx r mr) (mx s ms)
               (if flagged3 a v r
                then fl @ [flag_record interval idx (score_dict a s m v r)] else fl)\<rparr>"
  unfolding loop_body_def try_block_scored [OF assms]
  by (simp add: write_errors_def error_marker_def split: option.splits)

lemma name_at_score_dict:
  "name_at (score_dict a s m v r) ''adult'' = a"
  "name_at (score_dict a s m v r) ''spoof'' = s"
  "name_at (score_dict a s m v r) ''medical'' = m"
  "name_at (score_dict a s m v r) ''violence'' = v"
  "name_at (score_dict a s m v r) ''racy'' = r"
  by (simp_all add: name_at_def score_dict_def)

lemma loop_body_step:
  assumes summ: "summary res = summary_of maxes fl" and ok: "names_ok maxes"
  shows "loop_body e interval sv od idx frame res =
      res\<lparr>frame_results := frame_results res @ entries_of e interval sv od idx frame,
          summary := summary_of (\<lambda>key. next_max e frame key (maxes key))
                       (fl @ flags_of e interval idx frame)\<rparr>"
proof (cases "analyze_frame_safety e frame")
  case (Inl ex)
  then show ?thesis
    using summ by (simp add: loop_body_failed entries_of_def flags_of_def next_max_def)
next
  case (Inr scores)
  obtain a s m v r where sd: "scores = score_dict a s m v r"
    and names: "a \<in> set likelihood_names" "s \<in> set likelihood_names" "m \<in> set likelihood_names"
      "v \<in> set likelihood_names" "r \<in> set likelihood_names"
    using analyze_frame_safety_shape [OF Inr] by blast
  have sc: "analyze_frame_safety e frame = Inr (score_dict a s m v r)"
    using Inr sd by simp
  have summ': "summary res = mk_summary (maxes ''adult'') (maxes ''violence'') (maxes ''medical'')
       (maxes ''racy'') (maxes ''spoof'') fl"
    using summ by (simp add: summary_of_def)
  have maxes: "maxes ''adult'' \<in> set likelihood_names" "maxes ''violence'' \<in> set likelihood_names"
    "maxes ''medical'' \<in> set likelihood_names" "maxes ''racy'' \<in> set likelihood_names"
    "maxes ''spoof'' \<in> set likelihood_names"
    using ok by (simp_all add: names_ok_def categories_def)
  show ?thesis
    unfolding loop_body_scored [OF sc names summ' maxes]
    by (simp add: entries_of_def flags_of_def next_max_def sc summary_of_def
        name_at_score_dict flagged_scores_def)
qed

lemma next_max_ok: "names_ok maxes \<Longrightarrow> names_ok (\<lambda>key. next_max e frame key (maxes key))"
proof (cases "analyze_frame_safety e frame")
  case (Inl ex)
  assume "names_ok maxes"
  then show ?thesis using Inl by (simp add: next_max_def)
next
  case (Inr scores)
  assume ok: "names_ok maxes"
  obtain a s m v r where sd: "scores = score_dict a s m v r"
    and names: "a \<in> set likelihood_names" "s \<in> set likelihood_names" "m \<in> set likelihood_names"
      "v \<in> set likelihood_names" "r \<in> set likelihood_names"
    using analyze_frame_safety_shape [OF Inr] by blast
  show ?thesis
    using ok names
    by (simp add: names_ok_def categories_def next_max_def Inr sd name_at_score_dict mx_name)
qed

section \<open>The loop and the run\<close>

lemma analyze_loop_run:
  assumes "summary res = summary_of maxes fl" and "names_ok maxes"
  shows "analyze_loop e interval sv od idx frames res =
     res\<lparr>frame_results := frame_results res @
            concat (map (\<lambda>j. entries_of e interval sv od (idx + j) (frames ! j)) [0..<length frames]),
         summary := summary_of (\<lambda>key. foldl (\<lambda>old f. next_max e f key old) (maxes key) frames)
            (fl @ concat (map (\<lambda>j. flags_of e interval (idx + j) (frames ! j)) [0..<length frames]))\<rparr>"
  using assms
proof (induction frames arbitrary: idx res maxes fl)
  case Nil
  then show ?case by simp
next
  case (Cons f fs)
  let ?res = "loop_body e interval sv od idx f res"
  have body: "?res = res\<lparr>frame_results := frame_results res @ entries_of e interval sv od idx f,
          summary := summary_of (\<lambda>key. next_max e f key (maxes key))
                       (fl @ flags_of e interval idx f)\<rparr>"
    using Cons.prems by (rule loop_body_step)
  have summ: "summary ?res = summary_of (\<lambda>key. next_max e f key (maxes key))
                       (fl @ flags_of e interval idx f)"
    by (simp add: body)
  have ok: "names_ok (\<lambda>key. next_max e f key (maxes key))"
    using Cons.prems(2) by (rule next_max_ok)
  have upt: "[0..<length (f # fs)] = 0 # map Suc [0..<length fs]"
    by (simp add: upt_conv_Cons map_Suc_upt del: upt_Suc)
  show ?case
    unfolding analyze_loop.simps Cons.IH [OF summ ok] upt
    by (simp add: body o_def)
qed

lemma analyze_loop_append:
  "analyze_loop e interval sv od idx (xs @ ys) res =
     analyze_loop e interval sv od (idx + length xs) ys (analyze_loop e interval sv od idx xs res)"
proof (induction xs arbitrary: idx res)
  case Nil
  show ?case by simp
next
  case (Cons x xs)
  show ?case
    using Cons.IH [of "Suc idx" "loop_body e interval sv od idx x res"] by simp
qed

lemma state_after_rest:
  assumes "n \<le> length frames"
  shows "analyze_loop e interval sv od 0 frames (initial_results e path interval frames) =
     analyze_loop e interval sv od n (drop n frames) (state_after e path interval sv od frames n)"
proof -
  have "length (take n frames) = n"
    using assms by simp
  then show ?thesis
    using analyze_loop_append [of e interval sv od 0 "take n frames" "drop n frames"
        "initial_results e path interval frames"]
    by (simp add: state_after_def)
qed

lemma state_after_Suc:
  assumes "k < length frames"
  shows "state_after e path interval sv od frames (Suc k) =
     loop_body e interval sv od k (frames ! k) (state_after e path interval sv od frames k)"
proof -
  have "take (Suc k) frames = take k frames @ [frames ! k]" "length (take k frames) = k"
    using assms by (simp_all add: take_Suc_conv_app_nth)
  then show ?thesis
    using analyze_loop_append [of e interval sv od 0 "take k frames" "[frames ! k]"
        "initial_results e path interval frames"]
    by (simp add: state_after_def)
qed

lemma initial_summary:
  "summary (initial_results e path interval frames) = summary_of (\<lambda>key. ''VERY_UNLIKELY'') []"
  "names_ok (\<lambda>key. ''VERY_UNLIKELY'')"
  by (simp_all add: initial_results_def summary_of_def mk_summary_def names_ok_def likelihood_names_def)

lemma state_after_explicit:
  assumes "n \<le> length frames"
  shows "state_after e path interval sv od frames n =
     (initial_results e path interval frames)
       \<lparr>frame_results := concat (map (\<lambda>j. entries_of e interval sv od j (frames ! j)) [0..<n]),
        summary := summary_of
           (\<lambda>key. foldl (\<lambda>old f. next_max e f key old) ''VERY_UNLIKELY'' (take n frames))
           (concat (map (\<lambda>j. flags_of e interval j (frames ! j)) [0..<n]))\<rparr>"
proof -
  have nil: "frame_results (initial_results e path interval frames) = []"
    by (simp add: initial_results_def)
  have len: "length (take n frames) = n"
    using assms by simp
  have m1: "map (\<lambda>j. entries_of e interval sv od (0 + j) (take n frames ! j)) [0..<n] =
      map (\<lambda>j. entries_of e interval sv od j (frames ! j)) [0..<n]"
    by (rule map_cong) simp_all
  have m2: "map (\<lambda>j. flags_of e interval (0 + j) (take n frames ! j)) [0..<n] =
      map (\<lambda>j. flags_of e interval j (frames ! j)) [0..<n]"
    by (rule map_cong) simp_all
  show ?thesis
    unfolding state_after_def analyze_loop_run [OF initial_summary] len m1 m2
    by (simp add: nil)
qed

lemma analyze_video_Inr:
  "analyze_video e path interval sv od = Inr res \<longleftrightarrow>
     path_exists e path \<and>
     (\<exists>frames. extract_frames e path interval = Inr frames
        \<and> (saving sv od \<longrightarrow> makedirs e (the od) = None)
        \<and> res = state_after e path interval sv od frames (length frames))"
proof (cases "extract_frames e path interval")
  case (Inl ex)
  then show ?thesis by (simp add: analyze_video_def)
next
  case (Inr frames)
  then show ?thesis
    by (cases "makedirs e (the od)") (auto simp: analyze_video_def state_after_def)
qed

section \<open>Flagging\<close>

lemma level_at_scores:
  assumes "analyze_frame_safety e frame = Inr scores" and "key \<in> set categories"
  shows "level_at scores key = Inr (rank (name_at scores key))"
proof -
  obtain a s m v r where sd: "scores = score_dict a s m v r"
    and names: "a \<in> set likelihood_names" "s \<in> set likelihood_names" "m \<in> set likelihood_names"
      "v \<in> set likelihood_names" "r \<in> set likelihood_names"
    using analyze_frame_safety_shape [OF assms(1)] by blast
  have "level_at (score_dict a s m v r) ''adult'' = Inr (rank a)"
    "level_at (score_dict a s m v r) ''spoof'' = Inr (rank s)"
    "level_at (score_dict a s m v r) ''medical'' = Inr (rank m)"
    "level_at (score_dict a s m v r) ''violence'' = Inr (rank v)"
    "level_at (score_dict a s m v r) ''racy'' = Inr (rank r)"
    using names by (simp_all add: score_dict_def level_at_def getitem_def level_name del: level.simps)
  then show ?thesis
    using assms(2) by (auto simp: sd categories_def name_at_score_dict)
qed


lemma flags_of_index:
  assumes "x \<in> set (flags_of e interval j frame)"
  shows "\<exists>d. x = PyDict d \<and> getitem d ''frame_index'' = Inr (PyInt (int j))"
  using assms
  by (auto simp: flags_of_def flag_record_def getitem_def split: sum.splits if_splits)

lemma flagged_list:
  assumes "analyze_video e path interval sv od = Inr res"
    and "extract_frames e path interval = Inr frames"
  shows "getitem (summary res) ''flagged_frames'' =
     Inr (PyList (concat (map (\<lambda>j. flags_of e interval j (frames ! j)) [0..<length frames])))"
proof -
  have "res = state_after e path interval sv od frames (length frames)"
    using assms by (auto simp: analyze_video_Inr)
  then show ?thesis
    by (simp add: state_after_explicit summary_of_def mk_summary_def getitem_def)
qed


section \<open>Running maxima\<close>

lemma rank_mx: "rank (mx new old) = max (rank new) (rank old)"
  by (simp add: mx_def)

lemma scored_levels_finite: "finite (scored_levels e frames key n)"
proof -
  have "scored_levels e frames key n \<subseteq>
      (\<lambda>j. case analyze_frame_safety e (frames ! j) of
               Inr scores \<Rightarrow> (case level_at scores key of Inr l \<Rightarrow> l | Inl _ \<Rightarrow> 0)
             | Inl _ \<Rightarrow> 0) ` {..<n}"
    by (force simp: scored_levels_def)
  then show ?thesis
    by (rule finite_subset) simp
qed

lemma scored_levels_0: "scored_levels e frames key 0 = {}"
  by (simp add: scored_levels_def)

lemma scored_levels_Suc:
  "scored_levels e frames key (Suc n) =
     scored_levels e frames key n \<union>
     (case analyze_frame_safety e (frames ! n) of
        Inl ex \<Rightarrow> {}
      | Inr scores \<Rightarrow> {l. level_at scores key = Inr l})"
  by (auto simp: scored_levels_def less_Suc_eq split: sum.splits)

lemma scored_levels_mono: "m \<le> n \<Longrightarrow> scored_levels e frames key m \<subseteq> scored_levels e frames key n"
  unfolding scored_levels_def by (blast intro: less_le_trans)

lemma running_rank:
  assumes "key \<in> set categories" and "n \<le> length frames"
  shows "rank (foldl (\<lambda>old f. next_max e f key old) ''VERY_UNLIKELY'' (take n frames)) =
           Max (insert 1 (scored_levels e frames key n))"
  using assms(2)
proof (induction n)
  case 0
  show ?case
    by (simp add: scored_levels_0 rank_def likelihood_levels_def)
next
  case (Suc n)
  let ?old = "foldl (\<lambda>old f. next_max e f key old) ''VERY_UNLIKELY'' (take n frames)"
  have IH: "rank ?old = Max (insert 1 (scored_levels e frames key n))"
    using Suc by simp
  have tk: "take (Suc n) frames = take n frames @ [frames ! n]"
    using Suc.prems by (simp add: take_Suc_conv_app_nth)
  show ?case
  proof (cases "analyze_frame_safety e (frames ! n)")
    case (Inl ex)
    have "next_max e (frames ! n) key ?old = ?old"
      by (simp add: next_max_def Inl)
    then show ?thesis
      by (simp add: tk IH scored_levels_Suc Inl)
  next
    case (Inr scores)
    have lv: "{l. level_at scores key = Inr l} = {rank (name_at scores key)}"
      using level_at_scores [OF Inr assms(1)] by auto
    have "Max (insert 1 (insert (rank (name_at scores key)) (scored_levels e frames key n)))
        = max (rank (name_at scores key)) (Max (insert 1 (scored_levels e frames key n)))"
      using scored_levels_finite [of e frames key n]
      by (simp add: insert_commute [of 1])
    moreover have "next_max e (frames ! n) key ?old = mx (name_at scores key) ?old"
      by (simp add: next_max_def Inr)
    ultimately show ?thesis
      by (simp add: tk Inr rank_mx IH scored_levels_Suc lv)
  qed
qed

lemma level_at_summary_of:
  assumes "key \<in> set categories" and "names_ok maxes"
  shows "level_at (summary_of maxes fl) (''max_'' @ key) = Inr (rank (maxes key))"
  using assms
  by (auto simp: categories_def names_ok_def summary_of_def level_at_summary)

lemma foldl_next_max_ok:
  "names_ok maxes \<Longrightarrow> names_ok (\<lambda>key. foldl (\<lambda>old f. next_max e f key old) (maxes key) fs)"
proof (induction fs arbitrary: maxes)
  case Nil
  then show ?case by simp
next
  case (Cons f fs)
  show ?case
    using Cons.IH [OF next_max_ok [OF Cons.prems, of e f]] by simp
qed

lemma state_after_level:
  assumes "key \<in> set categories" and "n \<le> length frames"
  shows "level_at (summary (state_after e path interval sv od frames n)) (''max_'' @ key) =
           Inr (Max (insert 1 (scored_levels e frames key n)))"
proof -
  have ok: "names_ok (\<lambda>key. foldl (\<lambda>old f. next_max e f key old) ''VERY_UNLIKELY'' (take n frames))"
    using foldl_next_max_ok [OF initial_summary(2)] .
  show ?thesis
    unfolding state_after_explicit [OF assms(2)]
    using level_at_summary_of [OF assms(1) ok] running_rank [OF assms]
    by simp
qed

lemma demo_frames: "extract_frames demo_env ''v.mp4'' 1 = Inr [0, 1, 2]"
  by (simp add: demo_env_def video_env_def extract_frames_def py_int_def)

lemma demo_run:
  "analyze_video demo_env ''v.mp4'' 1 False None =
     Inr (state_after demo_env ''v.mp4'' 1 False None [0, 1, 2] (length [0::nat, 1, 2]))"
  unfolding analyze_video_Inr demo_frames
  by (simp add: demo_env_def video_env_def saving_def)

lemma demo_scores:
  "analyze_frame_safety demo_env 1 =
     Inr [(''adult'', PyStr ''POSSIBLE''), (''spoof'', PyStr ''VERY_UNLIKELY''),
          (''medical'', PyStr ''VERY_UNLIKELY''), (''violence'', PyStr ''VERY_UNLIKELY''),
          (''racy'', PyStr ''VERY_UNLIKELY'')]"
  by (simp add: analyze_frame_safety_def demo_env_def video_env_def demo_response_def
      likelihood_of_def attribute_def list_getitem_def likelihood_names_def)


text \<open>
  C2 (amended). The maxima start at VERY_UNLIKELY (level 1), so after any prefix of
  the sampled frames the level of \<open>max_<category>\<close> is the greatest of 1 and the
  levels of that category in the successfully scored frames of the prefix. It never
  decreases from a prefix to a longer one and is at least the level of every scored
  frame of the prefix, the last one included: the update comes before the flag
  check, so an exception while a flagged frame is saved does not undo it.
\<close>

theorem running_maximum:
  assumes "analyze_video e path interval sv od = Inr res"
    and "extract_frames e path interval = Inr frames"
    and "key \<in> set [''adult'', ''violence'', ''medical'', ''racy'', ''spoof'']"
    and "m \<le> n" and "n \<le> length frames"
  shows "res = analyze_loop e interval sv od n (drop n frames)
                 (state_after e path interval sv od frames n)
     \<and> level_at (summary (state_after e path interval sv od frames n)) (''max_'' @ key) =
         Inr (Max (insert 1 (scored_levels e frames key n)))
     \<and> Max (insert 1 (scored_levels e frames key m)) \<le> Max (insert 1 (scored_levels e frames key n))
     \<and> (\<forall>j<n. \<forall>scores l. analyze_frame_safety e (frames ! j) = Inr scores
            \<and> level_at scores key = Inr l
            \<longrightarrow> l \<le> Max (insert 1 (scored_levels e frames key n)))"
proof -
  have key: "key \<in> set categories"
    using assms(3) by (simp add: categories_def)
  have "res = state_after e path interval sv od frames (length frames)"
    using assms(1,2) by (auto simp: analyze_video_Inr)
  then have rest: "res = analyze_loop e interval sv od n (drop n frames)
                 (state_after e path interval sv od frames n)"
    using state_after_rest [OF assms(5), of e interval sv od path]
    by (simp add: state_after_def)
  have fin: "finite (insert 1 (scored_levels e frames key n))"
    using scored_levels_finite [of e frames key n] by simp
  have mono: "Max (insert 1 (scored_levels e frames key m)) \<le> Max (insert 1 (scored_levels e frames key n))"
    using scored_levels_mono [OF assms(4), of e frames key] fin
    by (intro Max_mono) auto
  have ge: "\<forall>j<n. \<forall>scores l. analyze_frame_safety e (frames ! j) = Inr scores
            \<and> level_at scores key = Inr l
            \<longrightarrow> l \<le> Max (insert 1 (scored_levels e frames key n))"
  proof (intro allI impI)
    fix j scores l
    assume "j < n" and "analyze_frame_safety e (frames ! j) = Inr scores \<and> level_at scores key = Inr l"
    then have "l \<in> insert 1 (scored_levels e frames key n)"
      by (auto simp: scored_levels_def)
    then show "l \<le> Max (insert 1 (scored_levels e frames key n))"
      using fin by (rule Max_ge [rotated])
  qed
  show ?thesis
    using rest state_after_level [OF key assms(5), of e path interval sv od] mono ge
    by blast
qed

text \<open>
  A single frame scored UNKNOWN (level 0) in every category: the summary keeps
  VERY_UNLIKELY (level 1), which is not the maximum level among the scored frames.
\<close>

theorem running_maximum_floor_counterexample:
  "analyze_frame_safety unknown_env 0 =
     Inr [(''adult'', PyStr ''UNKNOWN''), (''spoof'', PyStr ''UNKNOWN''),
          (''medical'', PyStr ''UNKNOWN''), (''violence'', PyStr ''UNKNOWN''),
          (''racy'', PyStr ''UNKNOWN'')]
   \<and> map_sum id summary (analyze_video unknown_env ''v.mp4'' 1 False None) =
     Inr [(''max_adult'', PyStr ''VERY_UNLIKELY''), (''max_violence'', PyStr ''VERY_UNLIKELY''),
          (''max_medical'', PyStr ''VERY_UNLIKELY''), (''max_racy'', PyStr ''VERY_UNLIKELY''),
          (''max_spoof'', PyStr ''VERY_UNLIKELY''), (''flagged_frames'', PyList [])]
   \<and> level (PyStr ''UNKNOWN'') = Inr 0
   \<and> level (PyStr ''VERY_UNLIKELY'') = Inr 1"
  by (simp add: analyze_video_def extract_frames_def unknown_env_def video_env_def py_int_def
      saving_def initial_results_def loop_body_def try_block_def analyze_frame_safety_def
      likelihood_of_def attribute_def list_getitem_def likelihood_names_def update_max_def level_at_def
      getitem_def setitem_def is_flagged_def likelihood_levels_def)

theorem running_maximum_witness:
  "extract_frames demo_env ''v.mp4'' 1 = Inr [0, 1, 2]
   \<and> 2 \<le> length [0::nat, 1, 2]
   \<and> level_at (summary (state_after demo_env ''v.mp4'' 1 False None [0, 1, 2] 2)) ''max_adult'' = Inr 3"
proof -
  have s0: "analyze_frame_safety demo_env 0 =
     Inr [(''adult'', PyStr ''VERY_UNLIKELY''), (''spoof'', PyStr ''VERY_UNLIKELY''),
          (''medical'', PyStr ''VERY_UNLIKELY''), (''violence'', PyStr ''VERY_UNLIKELY''),
          (''racy'', PyStr ''VERY_UNLIKELY'')]"
    by (simp add: analyze_frame_safety_def demo_env_def video_env_def demo_response_def
      likelihood_of_def attribute_def list_getitem_def likelihood_names_def)
  have s1: "analyze_frame_safety demo_env (Suc 0) =
     Inr [(''adult'', PyStr ''POSSIBLE''), (''spoof'', PyStr ''VERY_UNLIKELY''),
          (''medical'', PyStr ''VERY_UNLIKELY''), (''violence'', PyStr ''VERY_UNLIKELY''),
          (''racy'', PyStr ''VERY_UNLIKELY'')]"
    using demo_scores by simp
  have "scored_levels demo_env [0, 1, 2] ''adult'' (Suc (Suc 0)) = {1, 3}"
    unfolding scored_levels_Suc scored_levels_0
    by (auto simp: s0 s1 level_at_def getitem_def likelihood_levels_def)
  then have "Max (insert 1 (scored_levels demo_env [0, 1, 2] ''adult'' 2)) = 3"
    by (simp add: eval_nat_numeral)
  moreover have "''adult'' \<in> set [''adult'', ''violence'', ''medical'', ''racy'', ''spoof'']"
    "(1::nat) \<le> 2" "2 \<le> length [0::nat, 1, 2]"
    by simp_all
  ultimately show ?thesis
    using running_maximum [OF demo_run demo_frames, of "''adult''" 1 2] demo_frames by simp
qed

section \<open>Classification failures and the shape of the entries\<close>

lemma frame_result_of_scores:
  assumes "analyze_frame_safety e frame = Inr scores"
  shows "frame_result_of interval idx scores =
     scores @ [(''frame_index'', PyInt (int idx)),
               (''timestamp_seconds'', PyFloat (real idx * interval))]"
    and "map fst scores = [''adult'', ''spoof'', ''medical'', ''violence'', ''racy'']"
    and "\<forall>v \<in> snd ` set scores. \<exists>name \<in> set likelihood_names. v = PyStr name"
proof -
  obtain a s m v r where sd: "scores = score_dict a s m v r"
    and names: "a \<in> set likelihood_names" "s \<in> set likelihood_names" "m \<in> set likelihood_names"
      "v \<in> set likelihood_names" "r \<in> set likelihood_names"
    using analyze_frame_safety_shape [OF assms] by blast
  show "frame_result_of interval idx scores =
     scores @ [(''frame_index'', PyInt (int idx)),
               (''timestamp_seconds'', PyFloat (real idx * interval))]"
    unfolding sd frame_result_of_score_dict by (simp add: score_dict_def)
  show "map fst scores = [''adult'', ''spoof'', ''medical'', ''violence'', ''racy'']"
    by (simp add: sd score_dict_def)
  show "\<forall>v \<in> snd ` set scores. \<exists>name \<in> set likelihood_names. v = PyStr name"
    using names by (simp add: sd score_dict_def)
qed

lemma entries_of_failed:
  "analyze_frame_safety e frame = Inl ex \<Longrightarrow>
     entries_of e interval sv od idx frame = [error_marker idx ex]"
  by (simp add: entries_of_def)

lemma flags_of_failed:
  "analyze_frame_safety e frame = Inl ex \<Longrightarrow> flags_of e interval idx frame = []"
  by (simp add: flags_of_def)

lemma result_explicit:
  assumes "analyze_video e path interval sv od = Inr res"
    and "extract_frames e path interval = Inr frames"
  shows "res = (initial_results e path interval frames)
       \<lparr>frame_results :=
          concat (map (\<lambda>j. entries_of e interval sv od j (frames ! j)) [0..<length frames]),
        summary := summary_of
           (\<lambda>key. foldl (\<lambda>old f. next_max e f key old) ''VERY_UNLIKELY'' frames)
           (concat (map (\<lambda>j. flags_of e interval j (frames ! j)) [0..<length frames]))\<rparr>"
proof -
  have "res = state_after e path interval sv od frames (length frames)"
    using assms by (auto simp: analyze_video_Inr)
  then show ?thesis
    by (simp add: state_after_explicit)
qed

lemma state_after_failed:
  assumes "k < length frames" and "analyze_frame_safety e (frames ! k) = Inl ex"
  shows "state_after e path interval sv od frames (Suc k) =
     (state_after e path interval sv od frames k)
       \<lparr>frame_results := frame_results (state_after e path interval sv od frames k)
                           @ [error_marker k ex]\<rparr>"
  unfolding state_after_Suc [OF assms(1)] using assms(2) by (rule loop_body_failed)

text \<open>
  C5. When the classification of sampled frame \<open>k\<close> raises, the run still returns
  a result. Processing that frame appends the marker with the frame's index and
  \<open>str\<close> of the exception and changes nothing else, so neither the maxima nor the
  flagged list move; the loop goes on with the frames after \<open>k\<close>; the result holds
  the marker, holds no flag record for \<open>k\<close>, and counts all sampled frames in
  \<open>total_frames_analyzed\<close>.
\<close>

theorem classification_failure_contained:
  assumes "path_exists e path"
    and "extract_frames e path interval = Inr frames"
    and "saving sv od \<longrightarrow> makedirs e (the od) = None"
    and "k < length frames"
    and "analyze_frame_safety e (frames ! k) = Inl ex"
  shows "\<exists>res flagged. analyze_video e path interval sv od = Inr res
     \<and> total_frames_analyzed res = int (length frames)
     \<and> state_after e path interval sv od frames (Suc k) =
         (state_after e path interval sv od frames k)
           \<lparr>frame_results := frame_results (state_after e path interval sv od frames k)
              @ [PyDict [(''frame_index'', PyInt (int k)), (''error'', PyStr (str ex))]]\<rparr>
     \<and> res = analyze_loop e interval sv od (Suc k) (drop (Suc k) frames)
               (state_after e path interval sv od frames (Suc k))
     \<and> PyDict [(''frame_index'', PyInt (int k)), (''error'', PyStr (str ex))]
          \<in> set (frame_results res)
     \<and> getitem (summary res) ''flagged_frames'' = Inr (PyList flagged)
     \<and> \<not> (\<exists>d. PyDict d \<in> set flagged \<and> getitem d ''frame_index'' = Inr (PyInt (int k)))"
proof -
  define res where "res = state_after e path interval sv od frames (length frames)"
  let ?fl = "concat (map (\<lambda>j. flags_of e interval j (frames ! j)) [0..<length frames])"
  have run: "analyze_video e path interval sv od = Inr res"
    using assms(1-3) by (simp add: analyze_video_Inr res_def)
  note ex = result_explicit [OF run assms(2)]
  have total: "total_frames_analyzed res = int (length frames)"
    by (subst ex) (simp add: initial_results_def)
  have step: "state_after e path interval sv od frames (Suc k) =
         (state_after e path interval sv od frames k)
           \<lparr>frame_results := frame_results (state_after e path interval sv od frames k)
              @ [PyDict [(''frame_index'', PyInt (int k)), (''error'', PyStr (str ex))]]\<rparr>"
    using state_after_failed [OF assms(4,5)] by (simp add: error_marker_def)
  have rest: "res = analyze_loop e interval sv od (Suc k) (drop (Suc k) frames)
               (state_after e path interval sv od frames (Suc k))"
    using state_after_rest [of "Suc k" frames e interval sv od path] assms(4)
    by (simp add: res_def state_after_def)
  have "error_marker k ex \<in> set (entries_of e interval sv od k (frames ! k))"
    by (simp add: entries_of_failed [OF assms(5)])
  then have "error_marker k ex \<in> set (frame_results res)"
    using assms(4) by (subst ex) auto
  then have marker: "PyDict [(''frame_index'', PyInt (int k)), (''error'', PyStr (str ex))]
          \<in> set (frame_results res)"
    by (simp add: error_marker_def)
  have fl: "getitem (summary res) ''flagged_frames'' = Inr (PyList ?fl)"
    using flagged_list [OF run assms(2)] .
  have none: "\<not> (\<exists>d. PyDict d \<in> set ?fl \<and> getitem d ''frame_index'' = Inr (PyInt (int k)))"
  proof
    assume "\<exists>d. PyDict d \<in> set ?fl \<and> getitem d ''frame_index'' = Inr (PyInt (int k))"
    then obtain d j where j: "PyDict d \<in> set (flags_of e interval j (frames ! j))"
      and d: "getitem d ''frame_index'' = Inr (PyInt (int k))"
      by auto
    have "j = k"
      using flags_of_index [OF j] d by auto
    then show False
      using j flags_of_failed [OF assms(5)] by simp
  qed
  show ?thesis
    using run total step rest marker fl none by blast
qed

theorem classification_failure_contained_witness:
  "extract_frames demo_env ''v.mp4'' 1 = Inr [0, 1, 2]
   \<and> analyze_frame_safety demo_env ([0, 1, 2] ! 2) = Inl (ServiceError ''quota exceeded'')
   \<and> (\<exists>res. analyze_video demo_env ''v.mp4'' 1 False None = Inr res
         \<and> total_frames_analyzed res = 3
         \<and> PyDict [(''frame_index'', PyInt 2), (''error'', PyStr ''quota exceeded'')]
              \<in> set (frame_results res))"
proof -
  have f: "analyze_frame_safety demo_env ([0, 1, 2] ! 2) = Inl (ServiceError ''quota exceeded'')"
    by (simp add: analyze_frame_safety_def demo_env_def video_env_def demo_response_def)
  have "path_exists demo_env ''v.mp4''" "saving False None \<longrightarrow> makedirs demo_env (the None) = None"
    "2 < length [0::nat, 1, 2]"
    by (simp_all add: demo_env_def video_env_def saving_def)
  from classification_failure_contained [OF this(1) demo_frames this(2,3) f]
  show ?thesis
    using demo_frames f by auto
qed

lemma write_errors_cases:
  "write_errors e sv od idx frame flagged = []
   \<or> (\<exists>ex. write_errors e sv od idx frame flagged = [error_marker idx ex])"
  by (cases "imwrite e (the od) idx frame") (auto simp: write_errors_def)

lemma entries_of_scored:
  assumes "analyze_frame_safety e frame = Inr scores"
  shows "entries_of e interval sv od j frame = [PyDict (frame_result_of interval j scores)]
     \<or> (\<exists>ex. entries_of e interval sv od j frame =
           [PyDict (frame_result_of interval j scores), error_marker j ex])"
  using write_errors_cases [of e sv od j frame "flagged_scores scores"]
  by (auto simp: entries_of_def assms)

lemma entries_of_index:
  assumes "x \<in> set (entries_of e interval sv od j frame)"
  shows "\<exists>d. x = PyDict d \<and> getitem d ''frame_index'' = Inr (PyInt (int j))"
proof (cases "analyze_frame_safety e frame")
  case (Inl ex)
  then show ?thesis
    using assms by (simp add: entries_of_def error_marker_def getitem_def)
next
  case (Inr scores)
  obtain a s m v r where sd: "scores = score_dict a s m v r"
    using analyze_frame_safety_shape [OF Inr] by blast
  have "getitem (frame_result_of interval j scores) ''frame_index'' = Inr (PyInt (int j))"
    by (simp add: sd frame_result_of_score_dict getitem_def)
  moreover have "getitem [(''frame_index'', PyInt (int j)), (''error'', PyStr msg)] ''frame_index''
      = Inr (PyInt (int j))" for msg
    by (simp add: getitem_def)
  ultimately show ?thesis
    using assms entries_of_scored [OF Inr, of interval sv od j]
    by (auto simp: error_marker_def)
qed


lemma frame_results_explicit:
  assumes "analyze_video e path interval sv od = Inr res"
    and "extract_frames e path interval = Inr frames"
  shows "frame_results res =
      concat (map (\<lambda>j. entries_of e interval sv od j (frames ! j)) [0..<length frames])"
    and "interval_seconds res = interval"
    and "total_frames_analyzed res = int (length frames)"
    and "video_path res = path"
    and "timestamp res = now_isoformat e"
  by (subst result_explicit [OF assms], simp add: initial_results_def)+

lemma frame_results_entry:
  assumes "analyze_video e path interval sv od = Inr res"
    and "extract_frames e path interval = Inr frames"
  shows "x \<in> set (frame_results res) \<longleftrightarrow>
     (\<exists>j<length frames. x \<in> set (entries_of e interval sv od j (frames ! j)))"
  unfolding frame_results_explicit(1) [OF assms] by auto






lemma likelihood_of_Inl: "likelihood_of x = Inl ex \<Longrightarrow> ex = IndexError"
  by (auto simp: likelihood_of_def list_getitem_def split: if_splits)

lemma likelihood_of_in_range:
  "attribute x = int i \<Longrightarrow> i < 6 \<Longrightarrow> likelihood_of x = Inr (PyStr (likelihood_names ! i))"
  by (simp add: likelihood_of_def list_getitem_def likelihood_names_def)

lemma analyze_frame_safety_in_range:
  assumes "safe_search_detection e frame = Inr ann"
    and "attribute (adult ann) = int a" "attribute (spoof ann) = int s"
    and "attribute (medical ann) = int m" "attribute (violence ann) = int v"
    and "attribute (racy ann) = int r"
    and "a < 6" "s < 6" "m < 6" "v < 6" "r < 6"
  shows "analyze_frame_safety e frame =
         Inr [(''adult'', PyStr (likelihood_names ! a)), (''spoof'', PyStr (likelihood_names ! s)),
              (''medical'', PyStr (likelihood_names ! m)),
              (''violence'', PyStr (likelihood_names ! v)),
              (''racy'', PyStr (likelihood_names ! r))]"
  using assms by (simp add: analyze_frame_safety_def likelihood_of_in_range)

lemma analyze_frame_safety_Inl:
  assumes "analyze_frame_safety e frame = Inl ex"
  shows "safe_search_detection e frame = Inl ex \<or> ex = IndexError"
  using assms unfolding analyze_frame_safety_def
  by (auto split: sum.splits dest: likelihood_of_Inl)

lemma analyze_frame_safety_parts:
  assumes "safe_search_detection e frame = Inr ann"
    and "analyze_frame_safety e frame = Inr scores"
  shows "\<exists>a s m v r. likelihood_of (adult ann) = Inr a \<and> likelihood_of (spoof ann) = Inr s
     \<and> likelihood_of (medical ann) = Inr m \<and> likelihood_of (violence ann) = Inr v
     \<and> likelihood_of (racy ann) = Inr r
     \<and> scores = [(''adult'', a), (''spoof'', s), (''medical'', m), (''violence'', v), (''racy'', r)]"
  using assms(2) unfolding analyze_frame_safety_def assms(1)
  by (simp split: sum.splits)

lemma analyze_frame_safety_missing:
  assumes "safe_search_detection e frame = Inr ann"
    and "analyze_frame_safety e frame = Inr scores"
  shows "adult ann = None \<longrightarrow> getitem scores ''adult'' = Inr (PyStr ''UNKNOWN'')"
    and "spoof ann = None \<longrightarrow> getitem scores ''spoof'' = Inr (PyStr ''UNKNOWN'')"
    and "medical ann = None \<longrightarrow> getitem scores ''medical'' = Inr (PyStr ''UNKNOWN'')"
    and "violence ann = None \<longrightarrow> getitem scores ''violence'' = Inr (PyStr ''UNKNOWN'')"
    and "racy ann = None \<longrightarrow> getitem scores ''racy'' = Inr (PyStr ''UNKNOWN'')"
proof -
  have u: "likelihood_of None = Inr (PyStr ''UNKNOWN'')"
    by (simp add: likelihood_of_def attribute_def list_getitem_def likelihood_names_def)
  obtain a s m v r where p: "likelihood_of (adult ann) = Inr a" "likelihood_of (spoof ann) = Inr s"
      "likelihood_of (medical ann) = Inr m" "likelihood_of (violence ann) = Inr v"
      "likelihood_of (racy ann) = Inr r"
    and sc: "scores = [(''adult'', a), (''spoof'', s), (''medical'', m), (''violence'', v), (''racy'', r)]"
    using analyze_frame_safety_parts [OF assms] by blast
  show "adult ann = None \<longrightarrow> getitem scores ''adult'' = Inr (PyStr ''UNKNOWN'')"
    using p(1) by (auto simp: sc getitem_def u)
  show "spoof ann = None \<longrightarrow> getitem scores ''spoof'' = Inr (PyStr ''UNKNOWN'')"
    using p(2) by (auto simp: sc getitem_def u)
  show "medical ann = None \<longrightarrow> getitem scores ''medical'' = Inr (PyStr ''UNKNOWN'')"
    using p(3) by (auto simp: sc getitem_def u)
  show "violence ann = None \<longrightarrow> getitem scores ''violence'' = Inr (PyStr ''UNKNOWN'')"
    using p(4) by (auto simp: sc getitem_def u)
  show "racy ann = None \<longrightarrow> getitem scores ''racy'' = Inr (PyStr ''UNKNOWN'')"
    using p(5) by (auto simp: sc getitem_def u)
qed

text \<open>
  C7 (amended). Whatever \<open>analyze_frame_safety\<close> returns has exactly the keys
  \<open>adult\<close>, \<open>spoof\<close>, \<open>medical\<close>, \<open>violence\<close>, \<open>racy\<close>, each with one of the six
  likelihood names: the names at the positions the five attributes give. A category
  the response does not carry is no error: its attribute reads as 0 and the
  dictionary reports it as UNKNOWN. The function raises only when the call to the
  service raises, or with IndexError when an attribute is outside the list of names.
\<close>

theorem scorer_five_categories:
  "(\<forall>scores. analyze_frame_safety e frame = Inr scores \<longrightarrow>
       map fst scores = [''adult'', ''spoof'', ''medical'', ''violence'', ''racy'']
     \<and> (\<forall>v \<in> snd ` set scores. \<exists>name \<in> set likelihood_names. v = PyStr name))
   \<and> (\<forall>ann a s m v r. safe_search_detection e frame = Inr ann
         \<and> attribute (adult ann) = int a \<and> attribute (spoof ann) = int s
         \<and> attribute (medical ann) = int m \<and> attribute (violence ann) = int v
         \<and> attribute (racy ann) = int r
         \<and> a < 6 \<and> s < 6 \<and> m < 6 \<and> v < 6 \<and> r < 6 \<longrightarrow>
       analyze_frame_safety e frame =
         Inr [(''adult'', PyStr (likelihood_names ! a)), (''spoof'', PyStr (likelihood_names ! s)),
              (''medical'', PyStr (likelihood_names ! m)),
              (''violence'', PyStr (likelihood_names ! v)),
              (''racy'', PyStr (likelihood_names ! r))])
   \<and> (\<forall>ann scores. safe_search_detection e frame = Inr ann
         \<and> analyze_frame_safety e frame = Inr scores \<longrightarrow>
         (adult ann = None \<longrightarrow> getitem scores ''adult'' = Inr (PyStr ''UNKNOWN''))
       \<and> (spoof ann = None \<longrightarrow> getitem scores ''spoof'' = Inr (PyStr ''UNKNOWN''))
       \<and> (medical ann = None \<longrightarrow> getitem scores ''medical'' = Inr (PyStr ''UNKNOWN''))
       \<and> (violence ann = None \<longrightarrow> getitem scores ''violence'' = Inr (PyStr ''UNKNOWN''))
       \<and> (racy ann = None \<longrightarrow> getitem scores ''racy'' = Inr (PyStr ''UNKNOWN'')))
   \<and> (\<forall>ex. analyze_frame_safety e frame = Inl ex \<longrightarrow>
         safe_search_detection e frame = Inl ex \<or> ex = IndexError)"
proof (intro conjI)
  show "\<forall>scores. analyze_frame_safety e frame = Inr scores \<longrightarrow>
       map fst scores = [''adult'', ''spoof'', ''medical'', ''violence'', ''racy'']
     \<and> (\<forall>v \<in> snd ` set scores. \<exists>name \<in> set likelihood_names. v = PyStr name)"
  proof (intro allI impI conjI)
    fix scores assume sc: "analyze_frame_safety e frame = Inr scores"
    show "map fst scores = [''adult'', ''spoof'', ''medical'', ''violence'', ''racy'']"
      by (rule frame_result_of_scores(2) [OF sc])
    show "\<forall>v \<in> snd ` set scores. \<exists>name \<in> set likelihood_names. v = PyStr name"
      by (rule frame_result_of_scores(3) [OF sc])
  qed
  show "\<forall>ann a s m v r. safe_search_detection e frame = Inr ann
         \<and> attribute (adult ann) = int a \<and> attribute (spoof ann) = int s
         \<and> attribute (medical ann) = int m \<and> attribute (violence ann) = int v
         \<and> attribute (racy ann) = int r
         \<and> a < 6 \<and> s < 6 \<and> m < 6 \<and> v < 6 \<and> r < 6 \<longrightarrow>
       analyze_frame_safety e frame =
         Inr [(''adult'', PyStr (likelihood_names ! a)), (''spoof'', PyStr (likelihood_names ! s)),
              (''medical'', PyStr (likelihood_names ! m)),
              (''violence'', PyStr (likelihood_names ! v)),
              (''racy'', PyStr (likelihood_names ! r))]"
    by (intro allI impI, elim conjE) (rule analyze_frame_safety_in_range)
  show "\<forall>ann scores. safe_search_detection e frame = Inr ann
         \<and> analyze_frame_safety e frame = Inr scores \<longrightarrow>
         (adult ann = None \<longrightarrow> getitem scores ''adult'' = Inr (PyStr ''UNKNOWN''))
       \<and> (spoof ann = None \<longrightarrow> getitem scores ''spoof'' = Inr (PyStr ''UNKNOWN''))
       \<and> (medical ann = None \<longrightarrow> getitem scores ''medical'' = Inr (PyStr ''UNKNOWN''))
       \<and> (violence ann = None \<longrightarrow> getitem scores ''violence'' = Inr (PyStr ''UNKNOWN''))
       \<and> (racy ann = None \<longrightarrow> getitem scores ''racy'' = Inr (PyStr ''UNKNOWN''))"
  proof (intro allI impI, elim conjE)
    fix ann scores
    assume a: "safe_search_detection e frame = Inr ann" "analyze_frame_safety e frame = Inr scores"
    show "(adult ann = None \<longrightarrow> getitem scores ''adult'' = Inr (PyStr ''UNKNOWN''))
       \<and> (spoof ann = None \<longrightarrow> getitem scores ''spoof'' = Inr (PyStr ''UNKNOWN''))
       \<and> (medical ann = None \<longrightarrow> getitem scores ''medical'' = Inr (PyStr ''UNKNOWN''))
       \<and> (violence ann = None \<longrightarrow> getitem scores ''violence'' = Inr (PyStr ''UNKNOWN''))
       \<and> (racy ann = None \<longrightarrow> getitem scores ''racy'' = Inr (PyStr ''UNKNOWN''))"
      by (intro conjI) (rule analyze_frame_safety_missing [OF a])+
  qed
  show "\<forall>ex. analyze_frame_safety e frame = Inl ex \<longrightarrow>
         safe_search_detection e frame = Inl ex \<or> ex = IndexError"
    by (intro allI impI) (rule analyze_frame_safety_Inl)
qed

text \<open>
  A response that carries no \<open>racy\<close> category: no exception, \<open>racy\<close> is reported as
  UNKNOWN.
\<close>

theorem scorer_missing_category_counterexample:
  "safe_search_detection partial_env 0 =
     Inr \<lparr>adult = Some 1, spoof = Some 1, medical = Some 1, violence = Some 1, racy = None\<rparr>
   \<and> analyze_frame_safety partial_env 0 =
     Inr [(''adult'', PyStr ''VERY_UNLIKELY''), (''spoof'', PyStr ''VERY_UNLIKELY''),
          (''medical'', PyStr ''VERY_UNLIKELY''), (''violence'', PyStr ''VERY_UNLIKELY''),
          (''racy'', PyStr ''UNKNOWN'')]"
  by (simp add: partial_env_def video_env_def analyze_frame_safety_def likelihood_of_def
      attribute_def list_getitem_def likelihood_names_def)

theorem scorer_five_categories_witness:
  "safe_search_detection demo_env 1 =
     Inr \<lparr>adult = Some 3, spoof = Some 1, medical = Some 1, violence = Some 1, racy = Some 1\<rparr>
   \<and> analyze_frame_safety demo_env 1 =
     Inr [(''adult'', PyStr ''POSSIBLE''), (''spoof'', PyStr ''VERY_UNLIKELY''),
          (''medical'', PyStr ''VERY_UNLIKELY''), (''violence'', PyStr ''VERY_UNLIKELY''),
          (''racy'', PyStr ''VERY_UNLIKELY'')]"
proof -
  have r: "safe_search_detection demo_env 1 =
     Inr \<lparr>adult = Some 3, spoof = Some 1, medical = Some 1, violence = Some 1, racy = Some 1\<rparr>"
    by (simp add: demo_env_def video_env_def demo_response_def)
  have h: "safe_search_detection demo_env 1 =
       Inr \<lparr>adult = Some 3, spoof = Some 1, medical = Some 1, violence = Some 1, racy = Some 1\<rparr>
     \<and> attribute (adult \<lparr>adult = Some 3, spoof = Some 1, medical = Some 1,
           violence = Some 1, racy = Some 1\<rparr>) = int 3
     \<and> attribute (spoof \<lparr>adult = Some 3, spoof = Some 1, medical = Some 1,
           violence = Some 1, racy = Some 1\<rparr>) = int 1
     \<and> attribute (medical \<lparr>adult = Some 3, spoof = Some 1, medical = Some 1,
           violence = Some 1, racy = Some 1\<rparr>) = int 1
     \<and> attribute (violence \<lparr>adult = Some 3, spoof = Some 1, medical = Some 1,
           violence = Some 1, racy = Some 1\<rparr>) = int 1
     \<and> attribute (racy \<lparr>adult = Some 3, spoof = Some 1, medical = Some 1,
           violence = Some 1, racy = Some 1\<rparr>) = int 1
     \<and> (3::nat) < 6 \<and> (1::nat) < 6 \<and> (1::nat) < 6 \<and> (1::nat) < 6 \<and> (1::nat) < 6"
    using r by (simp add: attribute_def)
  have "analyze_frame_safety demo_env 1 =
         Inr [(''adult'', PyStr (likelihood_names ! 3)), (''spoof'', PyStr (likelihood_names ! 1)),
              (''medical'', PyStr (likelihood_names ! 1)),
              (''violence'', PyStr (likelihood_names ! 1)),
              (''racy'', PyStr (likelihood_names ! 1))]"
    by (rule scorer_five_categories [of demo_env 1, THEN conjunct2, THEN conjunct1,
          rule_format, OF h])
  then show ?thesis
    using r by (simp add: likelihood_names_def)
qed

section \<open>Reruns and unavailable sources\<close>

lemma analyze_frame_safety_clock:
  "analyze_frame_safety (e\<lparr>now_isoformat := t\<rparr>) frame = analyze_frame_safety e frame"
  by (simp add: analyze_frame_safety_def)

lemma write_errors_clock:
  "write_errors (e\<lparr>now_isoformat := t\<rparr>) sv od idx frame flagged
     = write_errors e sv od idx frame flagged"
  by (simp add: write_errors_def)

lemma per_frame_clock:
  "entries_of (e\<lparr>now_isoformat := t\<rparr>) interval sv od idx frame
     = entries_of e interval sv od idx frame"
  "flags_of (e\<lparr>now_isoformat := t\<rparr>) interval idx frame = flags_of e interval idx frame"
  "next_max (e\<lparr>now_isoformat := t\<rparr>) frame key old = next_max e frame key old"
  by (simp_all add: entries_of_def flags_of_def next_max_def write_errors_clock
      analyze_frame_safety_clock split: sum.split)

lemma analyze_loop_clock:
  "analyze_loop (e\<lparr>now_isoformat := t\<rparr>) interval sv od 0 frames
       (initial_results (e\<lparr>now_isoformat := t\<rparr>) path interval frames)
     = (analyze_loop e interval sv od 0 frames (initial_results e path interval frames))
         \<lparr>timestamp := t\<rparr>"
  unfolding analyze_loop_run [OF initial_summary] per_frame_clock
  by (simp add: initial_results_def)

lemma analyze_video_clock:
  "analyze_video (e\<lparr>now_isoformat := t\<rparr>) path interval sv od =
     map_sum id (\<lambda>res. res\<lparr>timestamp := t\<rparr>) (analyze_video e path interval sv od)"
proof -
  have ex: "extract_frames (e\<lparr>now_isoformat := t\<rparr>) path interval = extract_frames e path interval"
    by (simp add: extract_frames_def Let_def)
  show ?thesis
  proof (cases "extract_frames e path interval")
    case (Inl err)
    then show ?thesis
      by (simp add: analyze_video_def ex)
  next
    case (Inr frames)
    show ?thesis
      by (cases "saving sv od"; cases "makedirs e (the od)")
        (simp_all add: analyze_video_def ex Inr analyze_loop_clock)
  qed
qed

lemma analyze_video_client:
  assumes "\<not> path_exists e path \<or> \<not> isOpened (VideoCapture e path)"
  shows "analyze_video (e\<lparr>safe_search_detection := client\<rparr>) path interval sv od =
           analyze_video e path interval sv od"
  using assms by (auto simp: analyze_video_def extract_frames_def)

lemma entries_of_nonempty: "entries_of e interval sv od idx frame \<noteq> []"
  by (simp add: entries_of_def split: sum.split)

lemma every_frame_has_entry:
  assumes "analyze_video e path interval sv od = Inr res"
    and "extract_frames e path interval = Inr frames"
    and "k < length frames"
  shows "\<exists>d. PyDict d \<in> set (frame_results res)
           \<and> getitem d ''frame_index'' = Inr (PyInt (int k))"
proof -
  obtain x where x: "x \<in> set (entries_of e interval sv od k (frames ! k))"
    using entries_of_nonempty [of e interval sv od k "frames ! k"]
    by (cases "entries_of e interval sv od k (frames ! k)") auto
  then have "x \<in> set (frame_results res)"
    unfolding frame_results_entry [OF assms(1,2)] using assms(3) by blast
  then show ?thesis
    using entries_of_index [OF x] by blast
qed

lemma extract_frames_opened:
  "extract_frames e path interval = Inr frames \<Longrightarrow> isOpened (VideoCapture e path)"
  by (auto simp: extract_frames_def Let_def split: if_splits)

text \<open>
  C8 (amended). The clock is the only input of a run besides the video and the
  classification responses. A second run with the same video and the same responses
  gives the result of the first with \<open>timestamp\<close> replaced by the time of the second
  run: the path, the frame count, the interval, the per-frame results, the maxima and
  the flagged list, in the same order, are identical; a run that fails fails the
  same way.
\<close>

theorem rerun_same_but_timestamp:
  "analyze_video (e\<lparr>now_isoformat := t2\<rparr>) path interval sv od =
     map_sum id (\<lambda>res. res\<lparr>timestamp := t2\<rparr>)
       (analyze_video (e\<lparr>now_isoformat := t1\<rparr>) path interval sv od)"
  using analyze_video_clock [where e = "e\<lparr>now_isoformat := t1\<rparr>" and t = t2]
  by simp

text \<open>
  The same video and the same responses, run at two different times: the two results
  differ, in \<open>timestamp\<close>.
\<close>

theorem rerun_timestamp_counterexample:
  "analyze_video (demo_env\<lparr>now_isoformat := ''2024-01-01T00:00:00''\<rparr>) ''v.mp4'' 1 False None
     \<noteq> analyze_video (demo_env\<lparr>now_isoformat := ''2024-01-01T00:05:00''\<rparr>) ''v.mp4'' 1 False None"
proof
  assume "analyze_video (demo_env\<lparr>now_isoformat := ''2024-01-01T00:00:00''\<rparr>) ''v.mp4'' 1 False None
     = analyze_video (demo_env\<lparr>now_isoformat := ''2024-01-01T00:05:00''\<rparr>) ''v.mp4'' 1 False None"
  then have "map_sum id timestamp
       (analyze_video (demo_env\<lparr>now_isoformat := ''2024-01-01T00:00:00''\<rparr>) ''v.mp4'' 1 False None)
     = map_sum id timestamp
       (analyze_video (demo_env\<lparr>now_isoformat := ''2024-01-01T00:05:00''\<rparr>) ''v.mp4'' 1 False None)"
    by simp
  then show False
    by (simp add: analyze_video_clock demo_run)
qed

text \<open>
  C6. A path that does not exist gives FileNotFoundError and a file that does not
  open gives ValueError; in both cases the outcome is the same whatever the
  classification client is, so no frame was scored, and an error is all the run
  returns. A run that returns a result found the file and opened it, and the result
  is complete: it counts the sampled frames, holds an entry for each of them, the
  five maxima and the flagged list.
\<close>

theorem source_unavailable_no_summary:
  "(\<not> path_exists e path \<longrightarrow>
      analyze_video e path interval sv od =
        Inl (FileNotFoundError (''Video file not found: '' @ path)))
   \<and> (path_exists e path \<and> \<not> isOpened (VideoCapture e path) \<longrightarrow>
      analyze_video e path interval sv od =
        Inl (ValueError (''Error opening video file: '' @ path)))
   \<and> (\<not> path_exists e path \<or> \<not> isOpened (VideoCapture e path) \<longrightarrow>
      analyze_video (e\<lparr>safe_search_detection := client\<rparr>) path interval sv od =
        analyze_video e path interval sv od)
   \<and> (\<forall>res. analyze_video e path interval sv od = Inr res \<longrightarrow>
        path_exists e path \<and> isOpened (VideoCapture e path)
        \<and> (\<exists>frames flagged. extract_frames e path interval = Inr frames
              \<and> total_frames_analyzed res = int (length frames)
              \<and> (\<forall>k<length frames. \<exists>d. PyDict d \<in> set (frame_results res)
                      \<and> getitem d ''frame_index'' = Inr (PyInt (int k)))
              \<and> (\<forall>key \<in> set [''adult'', ''violence'', ''medical'', ''racy'', ''spoof''].
                    \<exists>l. level_at (summary res) (''max_'' @ key) = Inr l)
              \<and> getitem (summary res) ''flagged_frames'' = Inr (PyList flagged)))"
proof (intro conjI allI impI)
  assume "\<not> path_exists e path"
  then show "analyze_video e path interval sv od =
        Inl (FileNotFoundError (''Video file not found: '' @ path))"
    by (simp add: analyze_video_def)
next
  assume "path_exists e path \<and> \<not> isOpened (VideoCapture e path)"
  then show "analyze_video e path interval sv od =
        Inl (ValueError (''Error opening video file: '' @ path))"
    by (simp add: analyze_video_def extract_frames_def)
next
  assume "\<not> path_exists e path \<or> \<not> isOpened (VideoCapture e path)"
  then show "analyze_video (e\<lparr>safe_search_detection := client\<rparr>) path interval sv od =
        analyze_video e path interval sv od"
    by (rule analyze_video_client)
next
  fix res assume run: "analyze_video e path interval sv od = Inr res"
  then obtain frames where fr: "extract_frames e path interval = Inr frames"
    and res: "res = state_after e path interval sv od frames (length frames)"
    unfolding analyze_video_Inr by blast
  show "path_exists e path"
    using run unfolding analyze_video_Inr by blast
  show "isOpened (VideoCapture e path)"
    using fr by (rule extract_frames_opened)
  have lv: "\<forall>key \<in> set [''adult'', ''violence'', ''medical'', ''racy'', ''spoof''].
                    \<exists>l. level_at (summary res) (''max_'' @ key) = Inr l"
  proof
    fix key assume "key \<in> set [''adult'', ''violence'', ''medical'', ''racy'', ''spoof'']"
    then have "key \<in> set categories"
      by (simp add: categories_def)
    then show "\<exists>l. level_at (summary res) (''max_'' @ key) = Inr l"
      unfolding res using state_after_level [of key "length frames" frames e path interval sv od]
      by blast
  qed
  have en: "\<forall>k<length frames. \<exists>d. PyDict d \<in> set (frame_results res)
                      \<and> getitem d ''frame_index'' = Inr (PyInt (int k))"
    using every_frame_has_entry [OF run fr] by blast
  show "\<exists>frames flagged. extract_frames e path interval = Inr frames
              \<and> total_frames_analyzed res = int (length frames)
              \<and> (\<forall>k<length frames. \<exists>d. PyDict d \<in> set (frame_results res)
                      \<and> getitem d ''frame_index'' = Inr (PyInt (int k)))
              \<and> (\<forall>key \<in> set [''adult'', ''violence'', ''medical'', ''racy'', ''spoof''].
                    \<exists>l. level_at (summary res) (''max_'' @ key) = Inr l)
              \<and> getitem (summary res) ''flagged_frames'' = Inr (PyList flagged)"
    using fr frame_results_explicit(3) [OF run fr] en lv flagged_list [OF run fr]
    by (intro exI conjI)
qed

theorem source_unavailable_no_summary_witness:
  "\<not> path_exists missing_env ''gone.mp4''
   \<and> analyze_video missing_env ''gone.mp4'' 1 False None =
       Inl (FileNotFoundError ''Video file not found: gone.mp4'')
   \<and> path_exists unopened_env ''bad.mp4'' \<and> \<not> isOpened (VideoCapture unopened_env ''bad.mp4'')
   \<and> analyze_video unopened_env ''bad.mp4'' 1 False None =
       Inl (ValueError ''Error opening video file: bad.mp4'')
   \<and> (\<exists>res. analyze_video demo_env ''v.mp4'' 1 False None = Inr res
         \<and> total_frames_analyzed res = 3)"
proof -
  have a: "\<not> path_exists missing_env ''gone.mp4''"
    by (simp add: missing_env_def video_env_def)
  have b: "path_exists unopened_env ''bad.mp4'' \<and> \<not> isOpened (VideoCapture unopened_env ''bad.mp4'')"
    by (simp add: unopened_env_def video_env_def)
  note t1 = source_unavailable_no_summary [of missing_env "''gone.mp4''" 1 False None,
      THEN conjunct1, rule_format, OF a]
  note t2 = source_unavailable_no_summary [of unopened_env "''bad.mp4''" 1 False None,
      THEN conjunct2, THEN conjunct1, rule_format, OF b]
  note t3 = source_unavailable_no_summary [of demo_env "''v.mp4''" 1 False None,
      THEN conjunct2, THEN conjunct2, THEN conjunct2, rule_format, OF demo_run]
  have "total_frames_analyzed (state_after demo_env ''v.mp4'' 1 False None [0, 1, 2]
      (length [0::nat, 1, 2])) = 3"
    using t3 demo_frames by auto
  then show ?thesis
    using a b t1 t2 demo_run by simp
qed

text \<open>
  C9. A run that completes (the client was created, \<open>analyze_video\<close> returned a
  result, the requested files were written and the report was printed) exits with
  status 0 exactly when the flagged list is empty and with status 1 exactly when it
  is not.
\<close>

theorem exit_status_of_completed_run:
  assumes "ImageAnnotatorClient sys (credentials a) = None"
    and "analyze_video (env.truncate sys) (arg_video_path a) (arg_interval a)
           (save_flagged a) (Some (output_dir a)) = Inr res"
    and "truthy (json_output a) \<longrightarrow> write_file sys (the (json_output a)) = None"
    and "truthy (report_output a) \<longrightarrow> write_file sys (the (report_output a)) = None"
    and "print_report sys res = None"
  shows "\<exists>flagged. getitem (summary res) ''flagged_frames'' = Inr (PyList flagged)
     \<and> (main sys a = 0 \<longleftrightarrow> flagged = [])
     \<and> (main sys a = 1 \<longleftrightarrow> flagged \<noteq> [])"
proof -
  obtain frames where fr: "extract_frames (env.truncate sys) (arg_video_path a) (arg_interval a)
      = Inr frames"
    using assms(2) unfolding analyze_video_Inr by blast
  note fl = flagged_list [OF assms(2) fr]
  have "main sys a =
      (if concat (map (\<lambda>j. flags_of (env.truncate sys) (arg_interval a) j (frames ! j))
            [0..<length frames]) \<noteq> [] then 1 else 0)"
    using assms(3,4) by (simp add: main_def assms(1,2,5) fl)
  then show ?thesis
    using fl by auto
qed

theorem exit_status_of_completed_run_witness:
  "ImageAnnotatorClient demo_system (credentials demo_args) = None
   \<and> print_report demo_system (state_after demo_env ''v.mp4'' 1 False (Some ''flagged_frames'')
        [0, 1, 2] (length [0::nat, 1, 2])) = None
   \<and> (\<exists>res flagged. analyze_video (env.truncate demo_system) ''v.mp4'' 1 False
          (Some ''flagged_frames'') = Inr res
        \<and> getitem (summary res) ''flagged_frames'' = Inr (PyList flagged)
        \<and> (main demo_system demo_args = 1 \<longleftrightarrow> flagged \<noteq> []))"
proof -
  have tr: "env.truncate demo_system = demo_env"
    by (simp add: demo_system_def env.defs system.defs demo_env_def video_env_def)
  have run: "analyze_video (env.truncate demo_system) (arg_video_path demo_args)
      (arg_interval demo_args) (save_flagged demo_args) (Some (output_dir demo_args)) =
      Inr (state_after demo_env ''v.mp4'' 1 False (Some ''flagged_frames'') [0, 1, 2]
             (length [0::nat, 1, 2]))"
    unfolding tr analyze_video_Inr
    by (simp add: demo_args_def demo_frames saving_def) (simp add: demo_env_def video_env_def)
  have io: "ImageAnnotatorClient demo_system (credentials demo_args) = None"
    "truthy (json_output demo_args) \<longrightarrow> write_file demo_system (the (json_output demo_args)) = None"
    "truthy (report_output demo_args) \<longrightarrow> write_file demo_system (the (report_output demo_args)) = None"
    "print_report demo_system (state_after demo_env ''v.mp4'' 1 False (Some ''flagged_frames'')
        [0, 1, 2] (length [0::nat, 1, 2])) = None"
    by (simp_all add: demo_system_def env.defs system.defs demo_args_def truthy_def)
  from exit_status_of_completed_run [OF io(1) run io(2,3,4)] show ?thesis
    using io(1,4) run by (auto simp: demo_args_def tr)
qed

end
